theory Spec2Isabelle
  imports Complex_Main "HOL-Library.Sublist"
begin

section \<open>JavaScript strings\<close>

text \<open>
  A JavaScript string is a sequence of UTF-16 code units. The model uses \<open>string\<close>, whose
  characters are the code units 0 to 255 (ASCII and Latin-1), which is closed under
  \<^verbatim>\<open>toLowerCase\<close>, \<^verbatim>\<open>trim\<close>, \<^verbatim>\<open>split\<close> and \<^verbatim>\<open>includes\<close>. Every pattern and keyword of the
  two source files is ASCII.
\<close>

text \<open>
  A character is its eight bits, the lowest first: \<open>Char b0 b1 b2 b3 b4 b5 b6 b7\<close> is the code
  unit \<open>b0 + 2 * b1 + \<dots> + 128 * b7\<close>. The letters below 256 are A to Z (0x41 to 0x5A) and
  the Latin-1 capitals 0xC0 to 0xDE without the multiplication sign 0xD7, each with its small
  letter 0x20 above it, which is the same character with bit 5 set. The character classes
  are given on the bits; \<open>letters_listed\<close>, \<open>case_mapping_listed\<close> and \<open>classes_listed\<close>
  below list their members.
\<close>

fun ascii_letter :: "char \<Rightarrow> bool" where
  \<comment> \<open>0x41 to 0x5A and 0x61 to 0x7A: bit 6 without bit 7, the low five bits from 1 to 26.\<close>
  "ascii_letter (Char b0 b1 b2 b3 b4 b5 b6 b7) =
     (\<not> b7 \<and> b6 \<and> (b0 \<or> b1 \<or> b2 \<or> b3 \<or> b4) \<and> \<not> (b4 \<and> b3 \<and> (b2 \<or> b1 \<and> b0)))"

fun latin1_letter :: "char \<Rightarrow> bool" where
  \<comment> \<open>0xC0 to 0xDE and 0xE0 to 0xFE without 0xD7 and 0xF7: bits 6 and 7, the low five bits
      neither 23 nor 31.\<close>
  "latin1_letter (Char b0 b1 b2 b3 b4 b5 b6 b7) = (b7 \<and> b6 \<and> \<not> (b4 \<and> b2 \<and> b1 \<and> b0))"

fun with_bit5 :: "bool \<Rightarrow> char \<Rightarrow> char" where
  "with_bit5 b (Char b0 b1 b2 b3 b4 b5 b6 b7) = Char b0 b1 b2 b3 b4 b b6 b7"

definition toLowerCase_char :: "char \<Rightarrow> char" where
  \<comment> \<open>A capital goes to its small letter; a small letter and every other character stay.\<close>
  "toLowerCase_char c = (if ascii_letter c \<or> latin1_letter c then with_bit5 True c else c)"

definition toLowerCase :: "string \<Rightarrow> string" where
  "toLowerCase s = map toLowerCase_char s"

definition is_space :: "char \<Rightarrow> bool" where
  \<comment> \<open>WhiteSpace and LineTerminator below 256: TAB, LF, VT, FF, CR, SP, NBSP.
      The same set is what \<^verbatim>\<open>\s\<close>, \<^verbatim>\<open>trim\<close> and the numeric conversion of strings use.\<close>
  "is_space c = (c \<in> set [CHR 0x20, CHR 0x09, CHR 0x0A, CHR 0x0B, CHR 0x0C, CHR 0x0D, CHR 0xA0])"

fun is_digit :: "char \<Rightarrow> bool" where
  \<comment> \<open>0x30 to 0x39: the high four bits 3, the low four bits at most 9.\<close>
  "is_digit (Char b0 b1 b2 b3 b4 b5 b6 b7) =
     (\<not> b7 \<and> \<not> b6 \<and> b5 \<and> b4 \<and> (\<not> b3 \<or> \<not> b2 \<and> \<not> b1))"

definition is_word :: "char \<Rightarrow> bool" where
  \<comment> \<open>\<^verbatim>\<open>\w\<close> is \<^verbatim>\<open>[A-Za-z0-9_]\<close>, also under the \<^verbatim>\<open>i\<close> flag.\<close>
  "is_word c = (ascii_letter c \<or> is_digit c \<or> c = CHR ''_'')"

definition is_line_terminator :: "char \<Rightarrow> bool" where
  \<comment> \<open>LF and CR, the line terminators below 256.\<close>
  "is_line_terminator c = (c = CHR 0x0A \<or> c = CHR 0x0D)"

definition trim :: "string \<Rightarrow> string" where
  "trim s = rev (dropWhile is_space (rev (dropWhile is_space s)))"

fun js_includes :: "string \<Rightarrow> string \<Rightarrow> bool" where
  \<comment> \<open>\<open>js_includes s sub\<close> is \<^verbatim>\<open>s.includes(sub)\<close>.\<close>
  "js_includes [] sub = (sub = [])"
| "js_includes (c # cs) sub = (prefix sub (c # cs) \<or> js_includes cs sub)"

fun find_sep :: "string \<Rightarrow> string \<Rightarrow> (string \<times> string) option" where
  \<comment> \<open>The text before and the text after the first occurrence of a separator.\<close>
  "find_sep sep [] = (if sep = [] then Some ([], []) else None)"
| "find_sep sep (c # cs) =
     (if prefix sep (c # cs) then Some ([], drop (length sep) (c # cs))
      else map_option (\<lambda>(b, a). (c # b, a)) (find_sep sep cs))"

fun split_n :: "nat \<Rightarrow> string \<Rightarrow> string \<Rightarrow> string list" where
  "split_n 0 sep s = [s]"
| "split_n (Suc n) sep s =
     (case find_sep sep s of
        None \<Rightarrow> [s]
      | Some (b, a) \<Rightarrow> b # split_n n sep a)"

definition split :: "string \<Rightarrow> string \<Rightarrow> string list" where
  \<comment> \<open>\<open>split s sep\<close> is \<^verbatim>\<open>s.split(sep)\<close> for a separator that is not empty, the only kind
      the source passes: the pieces between the occurrences of \<open>sep\<close>, found from left to
      right without overlap. Each occurrence takes at least one character, so there are at
      most \<open>length s\<close> of them.\<close>
  "split s sep = split_n (length s) sep s"

section \<open>Regular expressions\<close>

text \<open>
  The regular expression literals of the source are written as values of \<open>regex\<close>, and
  matched by a backtracking matcher with the priorities of ECMAScript: the alternatives of
  \<^verbatim>\<open>|\<close> from left to right, a greedy quantifier longest first, a lazy one shortest first.
  \<open>run\<close> lists every way of matching a pattern at a position, in the order in which
  backtracking would try them; the first one that lets the rest of the pattern match is the
  match. An iteration of a quantifier that matches the empty string is refused, as the
  RepeatMatcher of the language definition does. That matcher also clears, at the start of an
  iteration, the captures of the groups inside the quantified pattern; no pattern of the
  source has a group inside \<^verbatim>\<open>*\<close> or \<^verbatim>\<open>+\<close>, and a group inside \<^verbatim>\<open>?\<close> has no capture yet when
  the \<^verbatim>\<open>?\<close> is entered, so there is nothing to clear.
\<close>

datatype cclass =
    Lit char            \<comment> \<open>a pattern character\<close>
  | Dot                 \<comment> \<open>\<^verbatim>\<open>.\<close> without the \<^verbatim>\<open>s\<close> flag\<close>
  | Space               \<comment> \<open>\<^verbatim>\<open>\s\<close>\<close>
  | Word                \<comment> \<open>\<^verbatim>\<open>\w\<close>\<close>
  | Digit               \<comment> \<open>\<^verbatim>\<open>\d\<close>\<close>
  | OneOf string        \<comment> \<open>\<^verbatim>\<open>[...]\<close>\<close>

datatype greed = Greedy | Lazy

datatype regex =
    RChar cclass
  | RSeq regex regex
  | RAlt regex regex
  | RStar greed regex         \<comment> \<open>\<^verbatim>\<open>*\<close> and \<^verbatim>\<open>*?\<close>\<close>
  | RPlus greed regex         \<comment> \<open>\<^verbatim>\<open>+\<close> and \<^verbatim>\<open>+?\<close>\<close>
  | ROpt regex                \<comment> \<open>\<^verbatim>\<open>?\<close>\<close>
  | RGroup nat regex          \<comment> \<open>the capturing group with that number\<close>
  | RBol                      \<comment> \<open>\<^verbatim>\<open>^\<close> without the \<^verbatim>\<open>m\<close> flag\<close>
  | REol                      \<comment> \<open>\<^verbatim>\<open>$\<close> without the \<^verbatim>\<open>m\<close> flag\<close>
  | REmpty

record mstate =
  pos :: nat                            \<comment> \<open>index of the next character\<close>
  rest :: string                        \<comment> \<open>the input from that index on\<close>
  caps :: "nat \<rightharpoonup> string"   \<comment> \<open>the captures so far\<close>

definition canonicalize :: "char \<Rightarrow> char" where
  \<comment> \<open>Canonicalize of the language definition (no \<^verbatim>\<open>u\<close> flag) on the code units below 256:
      a small letter goes to its capital and every other code unit is left as it is (the
      capitals of 0xB5 and 0xFF are above 255, that of 0xDF is two characters long).\<close>
  "canonicalize c = (if ascii_letter c \<or> latin1_letter c then with_bit5 False c else c)"

fun cmatch :: "bool \<Rightarrow> cclass \<Rightarrow> char \<Rightarrow> bool" where
  "cmatch ci (Lit p) c = (if ci then canonicalize c = canonicalize p else c = p)"
| "cmatch ci Dot c = (\<not> is_line_terminator c)"
| "cmatch ci Space c = is_space c"
| "cmatch ci Word c = is_word c"
| "cmatch ci Digit c = is_digit c"
| "cmatch ci (OneOf ps) c =
     (if ci then canonicalize c \<in> set (map canonicalize ps) else c \<in> set ps)"

fun repeat :: "greed \<Rightarrow> (mstate \<Rightarrow> mstate list) \<Rightarrow> nat \<Rightarrow> mstate \<Rightarrow> mstate list" where
  \<comment> \<open>Zero or more iterations of a matcher \<open>f\<close>. The number is a bound on the iterations
      still possible: each one has to consume a character, so \<open>length (rest st)\<close> is enough.\<close>
  "repeat g f 0 st = [st]"
| "repeat g f (Suc n) st =
     (let more = concat (map (repeat g f n)
                   (filter (\<lambda>st'. length (rest st') < length (rest st)) (f st)))
      in case g of Greedy \<Rightarrow> more @ [st] | Lazy \<Rightarrow> st # more)"

primrec run :: "bool \<Rightarrow> regex \<Rightarrow> mstate \<Rightarrow> mstate list" where
  "run ci (RChar a) st =
     (case rest st of
        [] \<Rightarrow> []
      | c # cs \<Rightarrow> if cmatch ci a c then [st\<lparr>pos := Suc (pos st), rest := cs\<rparr>] else [])"
| "run ci (RSeq r1 r2) st = concat (map (run ci r2) (run ci r1 st))"
| "run ci (RAlt r1 r2) st = run ci r1 st @ run ci r2 st"
| "run ci (RStar g r) st = repeat g (run ci r) (length (rest st)) st"
| "run ci (RPlus g r) st =
     concat (map (\<lambda>st'. repeat g (run ci r) (length (rest st')) st') (run ci r st))"
| "run ci (ROpt r) st =
     filter (\<lambda>st'. length (rest st') < length (rest st)) (run ci r st) @ [st]"
| "run ci (RGroup k r) st =
     map (\<lambda>st'. st'\<lparr>caps := (caps st')(k \<mapsto> take (pos st' - pos st) (rest st))\<rparr>) (run ci r st)"
| "run ci RBol st = (if pos st = 0 then [st] else [])"
| "run ci REol st = (if rest st = [] then [st] else [])"
| "run ci REmpty st = [st]"

fun search :: "bool \<Rightarrow> regex \<Rightarrow> nat \<Rightarrow> string \<Rightarrow> (nat \<times> mstate) option" where
  \<comment> \<open>The first index from \<open>i\<close> on at which the pattern matches, and the end of that match.\<close>
  "search ci r i [] =
     (case run ci r \<lparr>pos = i, rest = [], caps = Map.empty\<rparr> of
        [] \<Rightarrow> None
      | st # _ \<Rightarrow> Some (i, st))"
| "search ci r i (c # cs) =
     (case run ci r \<lparr>pos = i, rest = c # cs, caps = Map.empty\<rparr> of
        [] \<Rightarrow> search ci r (Suc i) cs
      | st # _ \<Rightarrow> Some (i, st))"

record js_regex =
  pattern :: regex
  ignoreCase :: bool     \<comment> \<open>the \<^verbatim>\<open>i\<close> flag\<close>

definition exec :: "js_regex \<Rightarrow> string \<Rightarrow> (nat \<rightharpoonup> string) option" where
  \<comment> \<open>\<^verbatim>\<open>s.match(re)\<close> for a pattern without the \<^verbatim>\<open>g\<close> flag: \<open>None\<close> is \<^verbatim>\<open>null\<close>, otherwise the
      captures, group 0 being the whole match. A group that took no part is \<open>None\<close>
      (\<^verbatim>\<open>undefined\<close>).\<close>
  "exec re s =
     (case search (ignoreCase re) (RGroup 0 (pattern re)) 0 s of
        None \<Rightarrow> None
      | Some (i, st) \<Rightarrow> Some (caps st))"

definition test :: "js_regex \<Rightarrow> string \<Rightarrow> bool" where
  \<comment> \<open>\<^verbatim>\<open>re.test(s)\<close> on a pattern object whose \<^verbatim>\<open>lastIndex\<close> is 0, as it is for the literals of
      the source, which are evaluated anew on every call; there the \<^verbatim>\<open>g\<close> flag changes nothing.\<close>
  "test re s = (exec re s \<noteq> None)"

fun lit :: "string \<Rightarrow> regex" where
  \<comment> \<open>A run of pattern characters.\<close>
  "lit [] = REmpty"
| "lit [c] = RChar (Lit c)"
| "lit (c # cs) = RSeq (RChar (Lit c)) (lit cs)"

fun seqs :: "regex list \<Rightarrow> regex" where
  "seqs [] = REmpty"
| "seqs [r] = r"
| "seqs (r # rs) = RSeq r (seqs rs)"

fun alts :: "regex list \<Rightarrow> regex" where
  "alts [] = REmpty"
| "alts [r] = r"
| "alts (r # rs) = RAlt r (alts rs)"

section \<open>JavaScript values\<close>

text \<open>
  A number is not-a-number, an infinity or a finite value. Finite values are exact
  rationals: the rounding of IEEE doubles is not modelled, and neither is the sign of zero
  (which none of the operations below can observe). The model agrees with JavaScript
  wherever the numbers involved are doubles and no operation rounds, as for integers below
  \<open>2 ^ 53\<close> in magnitude; no theorem below depends on a law of arithmetic that rounding
  would break.
\<close>

datatype jsnum = NaN | NegInf | Fin rat | PosInf

datatype jsval = Undefined | Null | JBool bool | JNum jsnum | JStr string

text \<open>
  A row is a plain object whose own properties are the columns, listed in the order of
  \<^verbatim>\<open>Object.keys\<close>. Properties inherited from \<^verbatim>\<open>Object.prototype\<close> are not modelled.
\<close>

type_synonym row = "(string \<times> jsval) list"

definition get :: "row \<Rightarrow> string \<Rightarrow> jsval" where
  \<comment> \<open>\<^verbatim>\<open>row[key]\<close>\<close>
  "get r k = (case map_of r k of None \<Rightarrow> Undefined | Some v \<Rightarrow> v)"

definition hasOwnProperty :: "row \<Rightarrow> string \<Rightarrow> bool" where
  "hasOwnProperty r k = (k \<in> set (map fst r))"

fun put :: "row \<Rightarrow> string \<Rightarrow> jsval \<Rightarrow> row" where
  \<comment> \<open>\<^verbatim>\<open>row[key] = v\<close>: a property that exists keeps its place, a new one goes last.\<close>
  "put [] k v = [(k, v)]"
| "put ((k', v') # r) k v = (if k' = k then (k, v) # r else (k', v') # put r k v)"

subsection \<open>Errors\<close>

datatype error =
    ExecutionError string     \<comment> \<open>\<^verbatim>\<open>throw new Error(message)\<close>\<close>
  | TypeError                 \<comment> \<open>a method called on \<^verbatim>\<open>undefined\<close>\<close>
  | RangeError                \<comment> \<open>a call with more arguments than the engine takes\<close>

subsection \<open>Numbers\<close>

fun num_add :: "jsnum \<Rightarrow> jsnum \<Rightarrow> jsnum" where
  "num_add NaN _ = NaN"
| "num_add _ NaN = NaN"
| "num_add PosInf NegInf = NaN"
| "num_add NegInf PosInf = NaN"
| "num_add PosInf _ = PosInf"
| "num_add _ PosInf = PosInf"
| "num_add NegInf _ = NegInf"
| "num_add _ NegInf = NegInf"
| "num_add (Fin a) (Fin b) = Fin (a + b)"

fun num_div_length :: "jsnum \<Rightarrow> nat \<Rightarrow> jsnum" where
  \<comment> \<open>\<^verbatim>\<open>x / xs.length\<close>: the divisor is a length, so a finite number that is not negative.\<close>
  "num_div_length NaN n = NaN"
| "num_div_length PosInf n = PosInf"
| "num_div_length NegInf n = NegInf"
| "num_div_length (Fin a) n =
     (if n = 0 then (if a = 0 then NaN else if 0 < a then PosInf else NegInf)
      else Fin (a / of_nat n))"

fun num_lt :: "jsnum \<Rightarrow> jsnum \<Rightarrow> bool" where
  \<comment> \<open>\<^verbatim>\<open>a < b\<close> on numbers: false as soon as one of them is not-a-number.\<close>
  "num_lt NaN _ = False"
| "num_lt _ NaN = False"
| "num_lt (Fin a) (Fin b) = (a < b)"
| "num_lt NegInf b = (b \<noteq> NegInf)"
| "num_lt (Fin a) b = (b = PosInf)"
| "num_lt PosInf b = False"

definition num_gt :: "jsnum \<Rightarrow> jsnum \<Rightarrow> bool" where
  "num_gt a b = num_lt b a"

definition num_le :: "jsnum \<Rightarrow> jsnum \<Rightarrow> bool" where
  \<comment> \<open>\<^verbatim>\<open>a <= b\<close>\<close>
  "num_le a b = (a \<noteq> NaN \<and> b \<noteq> NaN \<and> \<not> num_lt b a)"

definition num_ge :: "jsnum \<Rightarrow> jsnum \<Rightarrow> bool" where
  "num_ge a b = num_le b a"

definition or0 :: "jsnum \<Rightarrow> jsnum" where
  \<comment> \<open>\<^verbatim>\<open>x || 0\<close> on a number: not-a-number and zero are the numbers that are falsy.\<close>
  "or0 x = (if x = NaN \<or> x = Fin 0 then Fin 0 else x)"

definition max_of :: "jsnum list \<Rightarrow> jsnum" where
  \<comment> \<open>The value of \<^verbatim>\<open>Math.max\<close> on its arguments: minus infinity on no argument,
      not-a-number if one argument is.\<close>
  "max_of xs =
     (if NaN \<in> set xs then NaN else foldl (\<lambda>m x. if num_lt m x then x else m) NegInf xs)"

definition min_of :: "jsnum list \<Rightarrow> jsnum" where
  "min_of xs =
     (if NaN \<in> set xs then NaN else foldl (\<lambda>m x. if num_lt x m then x else m) PosInf xs)"

text \<open>
  \<^verbatim>\<open>Math.max(...xs)\<close> passes one argument for each element of the array. An engine takes only
  so many arguments in a call and throws a \<^verbatim>\<open>RangeError\<close> beyond that. The language does not fix
  the number; it is the parameter \<open>max_arguments\<close> of the model.
\<close>

definition Math_max :: "nat \<Rightarrow> jsnum list \<Rightarrow> error + jsnum" where
  \<comment> \<open>\<^verbatim>\<open>Math.max(...xs)\<close>\<close>
  "Math_max max_arguments xs =
     (if max_arguments < length xs then Inl RangeError else Inr (max_of xs))"

definition Math_min :: "nat \<Rightarrow> jsnum list \<Rightarrow> error + jsnum" where
  \<comment> \<open>\<^verbatim>\<open>Math.min(...xs)\<close>\<close>
  "Math_min max_arguments xs =
     (if max_arguments < length xs then Inl RangeError else Inr (min_of xs))"

subsection \<open>Conversions\<close>

definition digit_table :: "(char \<times> nat) list" where
  "digit_table =
     [(CHR ''0'', 0), (CHR ''1'', 1), (CHR ''2'', 2), (CHR ''3'', 3), (CHR ''4'', 4),
      (CHR ''5'', 5), (CHR ''6'', 6), (CHR ''7'', 7), (CHR ''8'', 8), (CHR ''9'', 9),
      (CHR ''a'', 10), (CHR ''b'', 11), (CHR ''c'', 12), (CHR ''d'', 13), (CHR ''e'', 14),
      (CHR ''f'', 15), (CHR ''A'', 10), (CHR ''B'', 11), (CHR ''C'', 12), (CHR ''D'', 13),
      (CHR ''E'', 14), (CHR ''F'', 15)]"

fun digits_value :: "nat \<Rightarrow> nat \<Rightarrow> string \<Rightarrow> nat option" where
  \<comment> \<open>The value of a run of digits in a base, continuing from an accumulator; \<open>None\<close> when a
      character is not a digit of that base.\<close>
  "digits_value b acc [] = Some acc"
| "digits_value b acc (c # cs) =
     (case map_of digit_table c of
        None \<Rightarrow> None
      | Some d \<Rightarrow> if d < b then digits_value b (acc * b + d) cs else None)"

definition exponent_part :: "string \<Rightarrow> int option" where
  \<comment> \<open>ExponentPart, or nothing: \<^verbatim>\<open>e\<close> or \<^verbatim>\<open>E\<close>, an optional sign, at least one digit.\<close>
  "exponent_part s =
     (case s of
        [] \<Rightarrow> Some 0
      | c # t \<Rightarrow>
          if c = CHR ''e'' \<or> c = CHR ''E'' then
            (let (neg, ds) = (case t of
                                [] \<Rightarrow> (False, [])
                              | d # u \<Rightarrow> if d = CHR ''-'' then (True, u)
                                         else if d = CHR ''+'' then (False, u) else (False, t))
             in if ds = [] then None
                else map_option (\<lambda>n. if neg then - int n else int n) (digits_value 10 0 ds))
          else None)"

definition unsigned_decimal :: "string \<Rightarrow> jsnum" where
  \<comment> \<open>StrUnsignedDecimalLiteral: \<^verbatim>\<open>Infinity\<close>, or digits with an optional fraction and an
      optional exponent, with a digit before or after the point.\<close>
  "unsigned_decimal s =
     (if s = ''Infinity'' then PosInf
      else
        let ip = takeWhile is_digit s;
            r1 = dropWhile is_digit s;
            (fp, r2) = (case r1 of
                          [] \<Rightarrow> ([], [])
                        | c # t \<Rightarrow> if c = CHR ''.'' then (takeWhile is_digit t, dropWhile is_digit t)
                                   else ([], r1))
        in if ip = [] \<and> fp = [] then NaN
           else case (digits_value 10 0 (ip @ fp), exponent_part r2) of
                  (Some m, Some e) \<Rightarrow>
                    (let k = e - int (length fp)
                     in if 0 \<le> k then Fin (of_nat m * 10 ^ nat k)
                        else Fin (of_nat m / 10 ^ nat (- k)))
                | _ \<Rightarrow> NaN)"

definition num_neg :: "jsnum \<Rightarrow> jsnum" where
  "num_neg x = (case x of NaN \<Rightarrow> NaN | NegInf \<Rightarrow> PosInf | PosInf \<Rightarrow> NegInf | Fin a \<Rightarrow> Fin (- a))"

definition radix_literal :: "nat \<Rightarrow> string \<Rightarrow> jsnum" where
  \<comment> \<open>The digits of a NonDecimalIntegerLiteral, after its prefix.\<close>
  "radix_literal b ds =
     (if ds = [] then NaN
      else case digits_value b 0 ds of None \<Rightarrow> NaN | Some n \<Rightarrow> Fin (of_nat n))"

definition StringToNumber :: "string \<Rightarrow> jsnum" where
  \<comment> \<open>\<^verbatim>\<open>Number(s)\<close> on a string: white space around the literal is dropped, the empty
      string is 0, a signed decimal literal or an unsigned binary, octal or hexadecimal one
      is its value, and anything else is not-a-number.\<close>
  "StringToNumber s =
     (let t = trim s
      in case t of
           [] \<Rightarrow> Fin 0
         | c # u \<Rightarrow>
             if c = CHR ''+'' then unsigned_decimal u
             else if c = CHR ''-'' then num_neg (unsigned_decimal u)
             else if prefix ''0x'' t \<or> prefix ''0X'' t then radix_literal 16 (drop 2 t)
             else if prefix ''0o'' t \<or> prefix ''0O'' t then radix_literal 8 (drop 2 t)
             else if prefix ''0b'' t \<or> prefix ''0B'' t then radix_literal 2 (drop 2 t)
             else unsigned_decimal t)"

fun ToNumber :: "jsval \<Rightarrow> jsnum" where
  \<comment> \<open>\<^verbatim>\<open>Number(v)\<close>\<close>
  "ToNumber Undefined = NaN"
| "ToNumber Null = Fin 0"
| "ToNumber (JBool b) = (if b then Fin 1 else Fin 0)"
| "ToNumber (JNum n) = n"
| "ToNumber (JStr s) = StringToNumber s"

fun ToString :: "(jsnum \<Rightarrow> string) \<Rightarrow> jsval \<Rightarrow> string" where
  \<comment> \<open>\<^verbatim>\<open>String(v)\<close>. The digits JavaScript prints for a number are those of the shortest
      decimal that reads back as the same double, which the exact numbers of this model do
      not determine; the rendering of numbers is therefore the parameter \<open>numstr\<close>, and every
      statement below holds for each rendering.\<close>
  "ToString numstr Undefined = ''undefined''"
| "ToString numstr Null = ''null''"
| "ToString numstr (JBool b) = (if b then ''true'' else ''false'')"
| "ToString numstr (JNum n) = numstr n"
| "ToString numstr (JStr s) = s"

fun decimal_digits :: "nat \<Rightarrow> string" where
  "decimal_digits n =
     (if n < 10 then [''0123456789'' ! n]
      else decimal_digits (n div 10) @ [''0123456789'' ! (n mod 10)])"

definition integer_numstr :: "jsnum \<Rightarrow> string" where
  \<comment> \<open>What JavaScript prints for not-a-number, the infinities and the integers below
      \<open>10 ^ 21\<close> in magnitude. It stands in for \<open>numstr\<close> where a statement is evaluated on
      data whose numbers are such integers; of any other number it prints the integer part
      only, which is not what JavaScript prints.\<close>
  "integer_numstr x =
     (case x of
        NaN \<Rightarrow> ''NaN''
      | PosInf \<Rightarrow> ''Infinity''
      | NegInf \<Rightarrow> ''-Infinity''
      | Fin a \<Rightarrow>
          (let i = (if a < 0 then \<lceil>a\<rceil> else \<lfloor>a\<rfloor>)
           in (if i < 0 then ''-'' else []) @ decimal_digits (nat \<bar>i\<bar>)))"

fun str_lt :: "string \<Rightarrow> string \<Rightarrow> bool" where
  \<comment> \<open>\<^verbatim>\<open>a < b\<close> on two strings: the order of the dictionary on code units.\<close>
  "str_lt [] [] = False"
| "str_lt [] (d # ds) = True"
| "str_lt (c # cs) [] = False"
| "str_lt (c # cs) (d # ds) =
     (if c = d then str_lt cs ds else (of_char c :: nat) < of_char d)"

definition js_lt :: "jsval \<Rightarrow> jsval \<Rightarrow> bool" where
  \<comment> \<open>\<^verbatim>\<open>a < b\<close>: two strings are compared as strings; otherwise both become numbers.\<close>
  "js_lt a b =
     (case (a, b) of
        (JStr x, JStr y) \<Rightarrow> str_lt x y
      | _ \<Rightarrow> num_lt (ToNumber a) (ToNumber b))"

definition js_gt :: "jsval \<Rightarrow> jsval \<Rightarrow> bool" where
  "js_gt a b = js_lt b a"

definition nullish_or :: "jsval \<Rightarrow> jsval \<Rightarrow> jsval" where
  \<comment> \<open>\<^verbatim>\<open>a ?? b\<close>\<close>
  "nullish_or a b = (if a = Undefined \<or> a = Null then b else a)"

subsection \<open>Arrays\<close>

fun insert_by :: "('a \<Rightarrow> 'a \<Rightarrow> int) \<Rightarrow> 'a \<Rightarrow> 'a list \<Rightarrow> 'a list" where
  "insert_by cmp x [] = [x]"
| "insert_by cmp x (y # ys) =
     (if cmp x y < 0 then x # y # ys else y # insert_by cmp x ys)"

definition array_sort :: "('a \<Rightarrow> 'a \<Rightarrow> int) \<Rightarrow> 'a list \<Rightarrow> 'a list" where
  \<comment> \<open>\<^verbatim>\<open>xs.sort(cmp)\<close>. The language fixes the result only for a consistent comparator, as
      the sorted arrangement that keeps equal elements in order; an insertion sort gives
      it. For an inconsistent comparator the arrangement is left to the engine (it is
      always a rearrangement of \<open>xs\<close>), and the one modelled is that of an insertion sort.\<close>
  "array_sort cmp xs = foldl (\<lambda>sorted x. insert_by cmp x sorted) [] xs"

section \<open>The interpreter: \<^verbatim>\<open>frontend/src/App.js\<close>\<close>

definition backtick :: char where
  "backtick = CHR 0x60"

definition spaces1 :: regex where
  \<comment> \<open>\<^verbatim>\<open>\s+\<close>\<close>
  "spaces1 = RPlus Greedy (RChar Space)"

definition word1 :: regex where
  \<comment> \<open>\<^verbatim>\<open>\w+\<close>\<close>
  "word1 = RPlus Greedy (RChar Word)"

definition tick_opt :: regex where
  \<comment> \<open>an optional back-tick\<close>
  "tick_opt = ROpt (RChar (Lit backtick))"

definition remove_all :: "cclass \<Rightarrow> string \<Rightarrow> string" where
  \<comment> \<open>\<^verbatim>\<open>s.replace(/C/g, '')\<close> for a pattern \<^verbatim>\<open>C\<close> that is one character class: every
      character of the class is removed.\<close>
  "remove_all a s = filter (\<lambda>c. \<not> cmatch False a c) s"

definition strip_backticks :: "string \<Rightarrow> string" where
  \<comment> \<open>\<^verbatim>\<open>s.replace(/`/g, '')\<close>\<close>
  "strip_backticks s = remove_all (Lit backtick) s"

definition strip_quotes :: "string \<Rightarrow> string" where
  \<comment> \<open>\<^verbatim>\<open>s.replace(/['"]/g, '')\<close>\<close>
  "strip_quotes s = remove_all (OneOf [CHR 0x27, CHR 0x22]) s"

definition capture :: "(nat \<rightharpoonup> string) \<Rightarrow> nat \<Rightarrow> string" where
  \<comment> \<open>A capture used as a property key or inside a template literal, where \<^verbatim>\<open>undefined\<close>
      reads as the string of that name.\<close>
  "capture m k = (case m k of None \<Rightarrow> ''undefined'' | Some s \<Rightarrow> s)"

definition find_key :: "row \<Rightarrow> string \<Rightarrow> string option" where
  \<comment> \<open>\<^verbatim>\<open>Object.keys(row).find(key => key.toLowerCase() === name.toLowerCase())\<close>\<close>
  "find_key r name = find (\<lambda>key. toLowerCase key = toLowerCase name) (map fst r)"

subsection \<open>evaluateCondition\<close>

definition operators :: "string list" where
  "operators = [''>='', ''<='', ''!='', ''<>'', ''='', ''>'', ''<'']"

definition operands :: "string \<Rightarrow> string \<Rightarrow> (string \<times> string) option" where
  \<comment> \<open>\<^verbatim>\<open>const [left, right] = condition.split(op).map(s => s.trim())\<close>: the first two pieces.
      \<open>None\<close> stands for a \<^verbatim>\<open>right\<close> that is \<^verbatim>\<open>undefined\<close>.\<close>
  "operands condition op =
     (case map trim (split condition op) of
        l # r # _ \<Rightarrow> Some (l, r)
      | _ \<Rightarrow> None)"

definition leftVal :: "row \<Rightarrow> string \<Rightarrow> jsval" where
  \<comment> \<open>\<^verbatim>\<open>actualColumn ? row[actualColumn] : left\<close>; the empty key is falsy.\<close>
  "leftVal r left =
     (case find_key r (trim (strip_backticks left)) of
        None \<Rightarrow> JStr left
      | Some actualColumn \<Rightarrow> if actualColumn = [] then JStr left else get r actualColumn)"

definition switch_op :: "(jsnum \<Rightarrow> string) \<Rightarrow> string \<Rightarrow> jsval \<Rightarrow> string \<Rightarrow> bool option" where
  \<comment> \<open>The \<^verbatim>\<open>switch(op)\<close>; \<open>None\<close> when no case applies.\<close>
  "switch_op numstr op lv rv =
     (if op = ''='' then Some (toLowerCase (ToString numstr lv) = toLowerCase rv)
      else if op = ''!='' \<or> op = ''<>'' then Some (toLowerCase (ToString numstr lv) \<noteq> toLowerCase rv)
      else if op = ''>'' then Some (num_gt (ToNumber lv) (ToNumber (JStr rv)))
      else if op = ''<'' then Some (num_lt (ToNumber lv) (ToNumber (JStr rv)))
      else if op = ''>='' then Some (num_ge (ToNumber lv) (ToNumber (JStr rv)))
      else if op = ''<='' then Some (num_le (ToNumber lv) (ToNumber (JStr rv)))
      else None)"

fun eval_ops :: "(jsnum \<Rightarrow> string) \<Rightarrow> row \<Rightarrow> string \<Rightarrow> string list \<Rightarrow> error + bool" where
  \<comment> \<open>The loop over the operators.\<close>
  "eval_ops numstr r condition [] = Inr True"
| "eval_ops numstr r condition (op # ops) =
     (if js_includes condition op then
        (case operands condition op of
           None \<Rightarrow> Inl TypeError
         | Some (left, right) \<Rightarrow>
             (case switch_op numstr op (leftVal r left) (strip_quotes right) of
                Some b \<Rightarrow> Inr b
              | None \<Rightarrow> eval_ops numstr r condition ops))
      else eval_ops numstr r condition ops)"

definition evaluateCondition :: "(jsnum \<Rightarrow> string) \<Rightarrow> row \<Rightarrow> string \<Rightarrow> error + bool" where
  "evaluateCondition numstr r condition = eval_ops numstr r condition operators"

subsection \<open>calculateAggregation\<close>

definition alias_opt :: regex where
  \<comment> \<open>\<^verbatim>\<open>(?:\s+as\s+(\w+))?\<close>\<close>
  "alias_opt = ROpt (seqs [spaces1, lit ''as'', spaces1, RGroup 2 word1])"

definition aggregate_re :: "string \<Rightarrow> js_regex" where
  \<comment> \<open>\<^verbatim>\<open>/SUM\(`?(\w+)`?\)(?:\s+as\s+(\w+))?/i\<close>, and the same for AVG, MAX and MIN.\<close>
  "aggregate_re name =
     \<lparr>pattern = seqs [lit name, RChar (Lit (CHR ''('')), tick_opt, RGroup 1 word1, tick_opt,
                      RChar (Lit (CHR '')'')), alias_opt],
      ignoreCase = True\<rparr>"

definition count_re :: js_regex where
  \<comment> \<open>\<^verbatim>\<open>/COUNT\((\*|`?\w+`?)\)(?:\s+as\s+(\w+))?/i\<close>\<close>
  "count_re =
     \<lparr>pattern = seqs [lit ''COUNT'', RChar (Lit (CHR ''('')),
                      RGroup 1 (RAlt (RChar (Lit (CHR ''*''))) (seqs [tick_opt, word1, tick_opt])),
                      RChar (Lit (CHR '')'')), alias_opt],
      ignoreCase = True\<rparr>"

definition alias_or :: "(nat \<rightharpoonup> string) \<Rightarrow> string \<Rightarrow> string" where
  \<comment> \<open>\<^verbatim>\<open>match[2] || dflt\<close>\<close>
  "alias_or m dflt = (case m 2 of None \<Rightarrow> dflt | Some a \<Rightarrow> if a = [] then dflt else a)"

definition coerced :: "string \<Rightarrow> row \<Rightarrow> jsnum" where
  \<comment> \<open>\<^verbatim>\<open>Number(row[col]) || 0\<close>\<close>
  "coerced col r = or0 (ToNumber (get r col))"

definition sum_column :: "string \<Rightarrow> row list \<Rightarrow> jsnum" where
  \<comment> \<open>\<^verbatim>\<open>results.reduce((acc, row) => acc + (Number(row[col]) || 0), 0)\<close>\<close>
  "sum_column col results = foldl (\<lambda>acc r. num_add acc (coerced col r)) (Fin 0) results"

definition calculateAggregation :: "nat \<Rightarrow> row list \<Rightarrow> string \<Rightarrow> error + row list" where
  \<comment> \<open>The five matches are taken first and then tested in this order. \<open>max_arguments\<close> is
      the number of arguments the engine takes in one call: the calls of \<^verbatim>\<open>Math.max\<close> and
      \<^verbatim>\<open>Math.min\<close> throw beyond it.\<close>
  "calculateAggregation max_arguments results sqlQuery =
     (case exec (aggregate_re ''SUM'') sqlQuery of
        Some sumMatch \<Rightarrow>
          (let col = capture sumMatch 1;
               alias = alias_or sumMatch (''SUM('' @ col @ '')'')
           in Inr [[(alias, JNum (sum_column col results))]])
      | None \<Rightarrow>
     (case exec count_re sqlQuery of
        Some countMatch \<Rightarrow>
          (let alias = alias_or countMatch ''COUNT''
           in Inr [[(alias, JNum (Fin (of_nat (length results))))]])
      | None \<Rightarrow>
     (case exec (aggregate_re ''AVG'') sqlQuery of
        Some avgMatch \<Rightarrow>
          (let col = capture avgMatch 1;
               alias = alias_or avgMatch (''AVG('' @ col @ '')'')
           in Inr [[(alias, JNum (num_div_length (sum_column col results) (length results)))]])
      | None \<Rightarrow>
     (case exec (aggregate_re ''MAX'') sqlQuery of
        Some maxMatch \<Rightarrow>
          (let col = capture maxMatch 1;
               alias = alias_or maxMatch (''MAX('' @ col @ '')'')
           in case Math_max max_arguments (map (coerced col) results) of
                Inl e \<Rightarrow> Inl e
              | Inr maxv \<Rightarrow> Inr [[(alias, JNum maxv)]])
      | None \<Rightarrow>
     (case exec (aggregate_re ''MIN'') sqlQuery of
        Some minMatch \<Rightarrow>
          (let col = capture minMatch 1;
               alias = alias_or minMatch (''MIN('' @ col @ '')'')
           in case Math_min max_arguments (map (coerced col) results) of
                Inl e \<Rightarrow> Inl e
              | Inr minv \<Rightarrow> Inr [[(alias, JNum minv)]])
      | None \<Rightarrow> Inr results)))))"

subsection \<open>executeSQL\<close>

definition from_re :: js_regex where
  \<comment> \<open>\<^verbatim>\<open>/FROM\s+`?(\w+)`?/i\<close>\<close>
  "from_re =
     \<lparr>pattern = seqs [lit ''FROM'', spaces1, tick_opt, RGroup 1 word1, tick_opt],
      ignoreCase = True\<rparr>"

definition where_re :: js_regex where
  \<comment> \<open>\<^verbatim>\<open>/WHERE\s+(.+?)(?:\s+ORDER|\s+GROUP|\s+LIMIT|$)/i\<close>\<close>
  "where_re =
     \<lparr>pattern = seqs [lit ''WHERE'', spaces1, RGroup 1 (RPlus Lazy (RChar Dot)),
                      alts [RSeq spaces1 (lit ''ORDER''), RSeq spaces1 (lit ''GROUP''),
                            RSeq spaces1 (lit ''LIMIT''), REol]],
      ignoreCase = True\<rparr>"

definition order_re :: js_regex where
  \<comment> \<open>\<^verbatim>\<open>/ORDER\s+BY\s+`?(\w+)`?(?:\s+(ASC|DESC))?/i\<close>\<close>
  "order_re =
     \<lparr>pattern = seqs [lit ''ORDER'', spaces1, lit ''BY'', spaces1, tick_opt, RGroup 1 word1,
                      tick_opt, ROpt (RSeq spaces1 (RGroup 2 (RAlt (lit ''ASC'') (lit ''DESC''))))],
      ignoreCase = True\<rparr>"

definition limit_re :: js_regex where
  \<comment> \<open>\<^verbatim>\<open>/LIMIT\s+(\d+)/i\<close>\<close>
  "limit_re =
     \<lparr>pattern = seqs [lit ''LIMIT'', spaces1, RGroup 1 (RPlus Greedy (RChar Digit))],
      ignoreCase = True\<rparr>"

definition select_re :: js_regex where
  \<comment> \<open>\<^verbatim>\<open>/SELECT\s+(.+?)\s+FROM/i\<close>\<close>
  "select_re =
     \<lparr>pattern = seqs [lit ''SELECT'', spaces1, RGroup 1 (RPlus Lazy (RChar Dot)), spaces1,
                      lit ''FROM''],
      ignoreCase = True\<rparr>"

definition as_re :: js_regex where
  \<comment> \<open>\<^verbatim>\<open>/(.+?)\s+as\s+(\w+)/i\<close>\<close>
  "as_re =
     \<lparr>pattern = seqs [RGroup 1 (RPlus Lazy (RChar Dot)), spaces1, lit ''as'', spaces1,
                      RGroup 2 word1],
      ignoreCase = True\<rparr>"

fun filter_rows :: "(row \<Rightarrow> error + bool) \<Rightarrow> row list \<Rightarrow> error + row list" where
  \<comment> \<open>\<^verbatim>\<open>results.filter(p)\<close> for a predicate that may throw.\<close>
  "filter_rows p [] = Inr []"
| "filter_rows p (r # rs) =
     (case p r of
        Inl e \<Rightarrow> Inl e
      | Inr b \<Rightarrow>
          (case filter_rows p rs of
             Inl e \<Rightarrow> Inl e
           | Inr rs' \<Rightarrow> Inr (if b then r # rs' else rs')))"

definition where_step :: "(jsnum \<Rightarrow> string) \<Rightarrow> row list \<Rightarrow> string \<Rightarrow> error + row list" where
  \<comment> \<open>Handle WHERE clause\<close>
  "where_step numstr results sqlQuery =
     (if js_includes (toLowerCase sqlQuery) ''where'' then
        (case exec where_re sqlQuery of
           None \<Rightarrow> Inr results
         | Some whereMatch \<Rightarrow>
             (case whereMatch 1 of
                None \<Rightarrow> Inl TypeError
              | Some c \<Rightarrow> filter_rows (\<lambda>r. evaluateCondition numstr r (trim c)) results))
      else Inr results)"

definition order_cmp :: "string \<Rightarrow> string \<Rightarrow> row \<Rightarrow> row \<Rightarrow> int" where
  \<comment> \<open>The comparator handed to \<^verbatim>\<open>sort\<close>.\<close>
  "order_cmp column direction a b =
     (let valA = nullish_or (get a column) (JStr []);
          valB = nullish_or (get b column) (JStr [])
      in if direction = ''asc'' then (if js_gt valA valB then 1 else - 1)
         else (if js_lt valA valB then 1 else - 1))"

definition order_step :: "row list \<Rightarrow> string \<Rightarrow> row list" where
  \<comment> \<open>Handle ORDER BY\<close>
  "order_step results sqlQuery =
     (if js_includes (toLowerCase sqlQuery) ''order by'' then
        (case exec order_re sqlQuery of
           None \<Rightarrow> results
         | Some orderMatch \<Rightarrow>
             (let column = capture orderMatch 1;
                  direction = (case orderMatch 2 of
                                 None \<Rightarrow> ''asc''
                               | Some d \<Rightarrow> if toLowerCase d = [] then ''asc'' else toLowerCase d)
              in array_sort (order_cmp column direction) results))
      else results)"

definition has_aggregate :: "string \<Rightarrow> bool" where
  \<comment> \<open>The test in front of the call of \<^verbatim>\<open>calculateAggregation\<close>.\<close>
  "has_aggregate sqlQuery =
     (let lowerQuery = toLowerCase sqlQuery
      in js_includes lowerQuery ''sum('' \<or> js_includes lowerQuery ''count('' \<or>
         js_includes lowerQuery ''avg('' \<or> js_includes lowerQuery ''max('' \<or>
         js_includes lowerQuery ''min('')"

definition parseInt :: "string \<Rightarrow> nat option" where
  \<comment> \<open>\<^verbatim>\<open>parseInt(s)\<close> on a capture of \<^verbatim>\<open>\d+\<close>: the value of the digits. \<open>None\<close> is
      not-a-number, which a string without a leading digit gives.\<close>
  "parseInt s =
     (let ds = takeWhile is_digit s
      in if ds = [] then None else digits_value 10 0 ds)"

definition slice0 :: "'a list \<Rightarrow> nat option \<Rightarrow> 'a list" where
  \<comment> \<open>\<^verbatim>\<open>xs.slice(0, n)\<close>, where not-a-number counts as 0.\<close>
  "slice0 xs n = (case n of None \<Rightarrow> [] | Some k \<Rightarrow> take k xs)"

definition limit_step :: "row list \<Rightarrow> string \<Rightarrow> row list" where
  \<comment> \<open>Handle LIMIT\<close>
  "limit_step results sqlQuery =
     (case exec limit_re sqlQuery of
        None \<Rightarrow> results
      | Some limitMatch \<Rightarrow> slice0 results (parseInt (capture limitMatch 1)))"

definition parse_column :: "string \<Rightarrow> string \<times> string option" where
  \<comment> \<open>One entry of the column list: \<^verbatim>\<open>{ original, alias }\<close>.\<close>
  "parse_column c =
     (let trimmed = trim c
      in case exec as_re trimmed of
           Some aliasMatch \<Rightarrow> (trim (strip_backticks (capture aliasMatch 1)), aliasMatch 2)
         | None \<Rightarrow> (strip_backticks trimmed, None))"

definition project_column :: "row \<Rightarrow> row \<Rightarrow> string \<times> string option \<Rightarrow> row" where
  \<comment> \<open>The body of \<^verbatim>\<open>columns.forEach\<close>, from the new row so far to the next one.\<close>
  "project_column r newRow col =
     (case col of (original, alias) \<Rightarrow>
        (let actualColumn = (case find_key r original of
                               None \<Rightarrow> original
                             | Some k \<Rightarrow> if k = [] then original else k)
         in if hasOwnProperty r actualColumn
            then put newRow
                   (case alias of
                      None \<Rightarrow> actualColumn
                    | Some a \<Rightarrow> if a = [] then actualColumn else a)
                   (get r actualColumn)
            else newRow))"

definition select_step :: "row list \<Rightarrow> string \<Rightarrow> row list" where
  \<comment> \<open>Handle column selection\<close>
  "select_step results sqlQuery =
     (case exec select_re sqlQuery of
        None \<Rightarrow> results
      | Some selectMatch \<Rightarrow>
          if trim (capture selectMatch 1) \<noteq> ''*'' then
            (let columns = map parse_column (split (capture selectMatch 1) '','')
             in map (\<lambda>r. foldl (project_column r) [] columns) results)
          else results)"

definition executeSQL ::
  "(jsnum \<Rightarrow> string) \<Rightarrow> nat \<Rightarrow> row list \<Rightarrow> string \<Rightarrow> error + row list" where
  \<comment> \<open>\<open>rows\<close> is the component's \<^verbatim>\<open>data\<close>. The \<^verbatim>\<open>catch\<close> throws the error again, so an error
      of the body is the error of the call.\<close>
  "executeSQL numstr max_arguments rows sqlQuery =
     (case exec from_re sqlQuery of
        None \<Rightarrow> Inl (ExecutionError ''Invalid SQL: Missing FROM clause'')
      | Some fromMatch \<Rightarrow>
          (case where_step numstr rows sqlQuery of
             Inl e \<Rightarrow> Inl e
           | Inr filtered \<Rightarrow>
               (let sorted = order_step filtered sqlQuery
                in if has_aggregate sqlQuery
                   then calculateAggregation max_arguments sorted sqlQuery
                   else Inr (select_step (limit_step sorted sqlQuery) sqlQuery))))"

subsection \<open>detectPromptInjection, the copy of the client\<close>

definition client_suspiciousPatterns :: "(js_regex \<times> string) list" where
  "client_suspiciousPatterns =
     [(\<lparr>pattern = seqs [lit ''ignore'', spaces1,
                        RGroup 1 (alts [lit ''previous'', lit ''above'', lit ''all'']), spaces1,
                        lit ''instruction'', ROpt (RChar (Lit (CHR ''s'')))],
        ignoreCase = True\<rparr>, ''Instruction Override Attempt''),
      (\<lparr>pattern = seqs [lit ''system'', RStar Greedy (RChar Space), RChar (Lit (CHR '':'')),
                        RStar Greedy (RChar Space), lit ''you'', spaces1, lit ''are''],
        ignoreCase = True\<rparr>, ''System Role Hijacking''),
      (\<lparr>pattern = alts [lit ''/*'', lit ''*/'', lit ''--'', lit ''#''],
        ignoreCase = False\<rparr>, ''SQL Comment Injection''),
      (\<lparr>pattern = seqs [RChar (Lit (CHR '';'')), RStar Greedy (RChar Space),
                        RGroup 1 (alts [lit ''drop'', lit ''delete'', lit ''truncate'',
                                        lit ''insert'', lit ''update'']), spaces1],
        ignoreCase = True\<rparr>, ''SQL Injection Attack''),
      (\<lparr>pattern = seqs [RGroup 1 (RAlt (lit ''union'') (seqs [lit ''union'', spaces1, lit ''all''])),
                        spaces1, lit ''select''],
        ignoreCase = True\<rparr>, ''UNION-based SQL Injection''),
      (\<lparr>pattern = seqs [RChar (Lit (CHR 0x27)), RStar Greedy (RChar Space), lit ''or'', spaces1,
                        ROpt (RChar (Lit (CHR 0x27))), RChar (Lit (CHR ''1'')),
                        ROpt (RChar (Lit (CHR 0x27))), RStar Greedy (RChar Space),
                        RChar (Lit (CHR ''='')), RStar Greedy (RChar Space),
                        ROpt (RChar (Lit (CHR 0x27))), RChar (Lit (CHR ''1''))],
        ignoreCase = True\<rparr>, ''Authentication Bypass Attempt''),
      (\<lparr>pattern = RGroup 1 (alts [lit ''exec'', lit ''execute'', lit ''eval'', lit ''script'']),
        ignoreCase = True\<rparr>, ''Code Execution Attempt''),
      (\<lparr>pattern = alts [lit ''<script'', lit ''javascript:'', lit ''onerror=''],
        ignoreCase = True\<rparr>, ''XSS Injection Attempt''),
      (\<lparr>pattern = alts [lit ''${'', lit ''{{'', lit ''<%''],
        ignoreCase = False\<rparr>, ''Template Injection'')]"

definition client_detectPromptInjection :: "string \<Rightarrow> string list" where
  \<comment> \<open>Every pattern is tested, in the order of the table, and the threats of those that
      match are pushed in that order.\<close>
  "client_detectPromptInjection query =
     map snd (filter (\<lambda>(p, threat). test p query) client_suspiciousPatterns)"

section \<open>The server: \<^verbatim>\<open>backend/server.js\<close>\<close>

subsection \<open>detectPromptInjection, the copy of the server\<close>

definition server_suspiciousPatterns :: "(js_regex \<times> string) list" where
  "server_suspiciousPatterns =
     [(\<lparr>pattern = seqs [lit ''ignore'', spaces1,
                        RGroup 1 (alts [lit ''previous'', lit ''above'', lit ''all'']), spaces1,
                        lit ''instruction'', ROpt (RChar (Lit (CHR ''s'')))],
        ignoreCase = True\<rparr>, ''Instruction Override Attempt''),
      (\<lparr>pattern = seqs [lit ''system'', RStar Greedy (RChar Space), RChar (Lit (CHR '':'')),
                        RStar Greedy (RChar Space), lit ''you'', spaces1, lit ''are''],
        ignoreCase = True\<rparr>, ''System Role Hijacking''),
      (\<lparr>pattern = alts [lit ''/*'', lit ''*/'', lit ''--'', lit ''#''],
        ignoreCase = False\<rparr>, ''SQL Comment Injection''),
      (\<lparr>pattern = seqs [RChar (Lit (CHR '';'')), RStar Greedy (RChar Space),
                        RGroup 1 (alts [lit ''drop'', lit ''delete'', lit ''truncate'',
                                        lit ''insert'', lit ''update'']), spaces1],
        ignoreCase = True\<rparr>, ''SQL Injection Attack''),
      (\<lparr>pattern = seqs [RGroup 1 (RAlt (lit ''union'') (seqs [lit ''union'', spaces1, lit ''all''])),
                        spaces1, lit ''select''],
        ignoreCase = True\<rparr>, ''UNION-based SQL Injection''),
      (\<lparr>pattern = seqs [RChar (Lit (CHR 0x27)), RStar Greedy (RChar Space), lit ''or'', spaces1,
                        ROpt (RChar (Lit (CHR 0x27))), RChar (Lit (CHR ''1'')),
                        ROpt (RChar (Lit (CHR 0x27))), RStar Greedy (RChar Space),
                        RChar (Lit (CHR ''='')), RStar Greedy (RChar Space),
                        ROpt (RChar (Lit (CHR 0x27))), RChar (Lit (CHR ''1''))],
        ignoreCase = True\<rparr>, ''Authentication Bypass Attempt''),
      (\<lparr>pattern = RGroup 1 (alts [lit ''exec'', lit ''execute'', lit ''eval'', lit ''script'']),
        ignoreCase = True\<rparr>, ''Code Execution Attempt''),
      (\<lparr>pattern = alts [lit ''<script'', lit ''javascript:'', lit ''onerror=''],
        ignoreCase = True\<rparr>, ''XSS Injection Attempt''),
      (\<lparr>pattern = alts [lit ''${'', lit ''{{'', lit ''<%''],
        ignoreCase = False\<rparr>, ''Template Injection'')]"

definition server_detectPromptInjection :: "string \<Rightarrow> string list" where
  "server_detectPromptInjection query =
     map snd (filter (\<lambda>(p, threat). test p query) server_suspiciousPatterns)"

subsection \<open>validateSQLGrammar\<close>

definition from_clause_re :: js_regex where
  \<comment> \<open>\<^verbatim>\<open>/FROM\s+`?\w+`?/i\<close>\<close>
  "from_clause_re =
     \<lparr>pattern = seqs [lit ''FROM'', spaces1, tick_opt, word1, tick_opt], ignoreCase = True\<rparr>"

definition select_start_re :: js_regex where
  \<comment> \<open>\<^verbatim>\<open>/^SELECT\s+/i\<close>\<close>
  "select_start_re = \<lparr>pattern = seqs [RBol, lit ''SELECT'', spaces1], ignoreCase = True\<rparr>"

definition dangerous_re :: js_regex where
  \<comment> \<open>\<^verbatim>\<open>/WHERE.*?(DROP|DELETE|INSERT|UPDATE|CREATE|ALTER)/i\<close>\<close>
  "dangerous_re =
     \<lparr>pattern = seqs [lit ''WHERE'', RStar Lazy (RChar Dot),
                      RGroup 1 (alts [lit ''DROP'', lit ''DELETE'', lit ''INSERT'', lit ''UPDATE'',
                                      lit ''CREATE'', lit ''ALTER''])],
      ignoreCase = True\<rparr>"

definition count_backticks :: "string \<Rightarrow> nat" where
  \<comment> \<open>\<^verbatim>\<open>(sql.match(/`/g) || []).length\<close>: with the \<^verbatim>\<open>g\<close> flag the matches are all the
      occurrences, here of one character.\<close>
  "count_backticks sql = length (filter (cmatch False (Lit backtick)) sql)"

definition validateSQLGrammar :: "string \<Rightarrow> string list" where
  "validateSQLGrammar sql =
     (if exec from_clause_re sql = None then [''Missing FROM clause''] else []) @
     (if count_backticks sql mod 2 \<noteq> 0 then [''Unbalanced backticks''] else []) @
     (if exec select_start_re sql = None then [''Query must start with SELECT''] else []) @
     (if exec dangerous_re sql \<noteq> None then [''Dangerous SQL operation detected''] else [])"

subsection \<open>The handler of \<^verbatim>\<open>/api/generate-sql\<close>\<close>

record metadata =
  distinctValues :: "jsval list option"
  sampleCount :: nat

record entry =
  column :: string
  col_type :: string
  context_text :: string              \<comment> \<open>the field \<^verbatim>\<open>context\<close>\<close>
  metadata :: "metadata option"

record request =
  question :: string                            \<comment> \<open>empty when the body has none\<close>
  schema :: "(string \<times> string) list option"
  sampleData :: "row list option"
  tableName :: "string option"
  vectorStore :: "entry list option"

record generated =
  sql_text :: string               \<comment> \<open>the field \<^verbatim>\<open>sql\<close>\<close>
  ragUsed :: bool

datatype failure =
    QuestionRequired                     \<comment> \<open>status 400, 'Question is required'\<close>
  | SecurityViolation "string list"      \<comment> \<open>status 400, 'Security violation detected'\<close>
  | SQLGrammarError "string list"        \<comment> \<open>status 400, 'SQL grammar error'\<close>
  | GenerationFailed                     \<comment> \<open>status 500, 'Failed to generate SQL'\<close>

definition mentions_value :: "(jsnum \<Rightarrow> string) \<Rightarrow> string \<Rightarrow> entry \<Rightarrow> bool" where
  \<comment> \<open>\<^verbatim>\<open>v.metadata?.distinctValues?.some(val =>
        question.toLowerCase().includes(String(val).toLowerCase()))\<close>,
      where \<^verbatim>\<open>undefined\<close> is falsy.\<close>
  "mentions_value numstr q v =
     (case metadata v of
        None \<Rightarrow> False
      | Some m \<Rightarrow>
          (case distinctValues m of
             None \<Rightarrow> False
           | Some vals \<Rightarrow>
               list_ex (\<lambda>val. js_includes (toLowerCase q) (toLowerCase (ToString numstr val))) vals))"

definition relevantColumns :: "(jsnum \<Rightarrow> string) \<Rightarrow> string \<Rightarrow> entry list option \<Rightarrow> entry list" where
  \<comment> \<open>Prepare RAG context\<close>
  "relevantColumns numstr q store =
     (case store of
        None \<Rightarrow> []
      | Some entries \<Rightarrow>
          filter (\<lambda>v. js_includes (toLowerCase q) (toLowerCase (column v)) \<or> mentions_value numstr q v)
            entries)"

definition toUpperCase :: "string \<Rightarrow> string" where
  \<comment> \<open>The capital of the sharp s 0xDF is two characters; those of 0xB5 and 0xFF are code
      units above 255, which no ASCII text contains, and are left as they are.\<close>
  "toUpperCase s = concat (map (\<lambda>c. if c = CHR 0xDF then ''SS'' else [canonicalize c]) s)"

definition drop_newline :: "string \<Rightarrow> string" where
  "drop_newline s = (case s of [] \<Rightarrow> [] | c # t \<Rightarrow> if c = CHR 0x0A then t else s)"

definition remove_fence :: "string \<Rightarrow> string \<Rightarrow> string" where
  \<comment> \<open>\<^verbatim>\<open>s.replace(/F\n?/g, '')\<close> for a fence \<^verbatim>\<open>F\<close> that holds no line feed: the pieces between
      its occurrences, each later one without the line feed it may start with.\<close>
  "remove_fence s fence =
     (case split s fence of
        [] \<Rightarrow> []
      | p # ps \<Rightarrow> concat (p # map drop_newline ps))"

definition clean_completion :: "string \<Rightarrow> string" where
  \<comment> \<open>Clean up markdown formatting; remove any explanatory text.\<close>
  "clean_completion completion =
     (let sqlQuery = trim (remove_fence (remove_fence (trim completion) ''```sql'') ''```'');
          lines = split sqlQuery [CHR 0x0A]
      in case find (\<lambda>line. prefix ''SELECT'' (toUpperCase (trim line))) lines of
           Some line \<Rightarrow> line
         | None \<Rightarrow> sqlQuery)"

definition generate_sql ::
  "(jsnum \<Rightarrow> string) \<Rightarrow> (request \<Rightarrow> entry list \<Rightarrow> string option) \<Rightarrow> request
     \<Rightarrow> failure + generated" where
  \<comment> \<open>\<open>llm req relevant\<close> is the text of the completion that the language model returns
      for the prompt, which the handler composes from the request and the relevant
      entries; \<open>None\<close> when the call fails, which the \<^verbatim>\<open>catch\<close> answers.\<close>
  "generate_sql numstr llm req =
     (if question req = [] then Inl QuestionRequired
      else
        let securityThreats = server_detectPromptInjection (question req)
        in if length securityThreats > 0 then Inl (SecurityViolation securityThreats)
           else
             let relevant = relevantColumns numstr (question req) (vectorStore req)
             in case llm req relevant of
                  None \<Rightarrow> Inl GenerationFailed
                | Some completion \<Rightarrow>
                    (let sqlQuery = clean_completion completion;
                         grammarErrors = validateSQLGrammar sqlQuery
                     in if length grammarErrors > 0 then Inl (SQLGrammarError grammarErrors)
                        else Inr \<lparr>sql_text = trim sqlQuery, ragUsed = length relevant > 0\<rparr>))"

section \<open>Notions used in the statements\<close>

definition adv :: "nat \<Rightarrow> mstate \<Rightarrow> mstate" where
  \<comment> \<open>The state of the matcher \<open>n\<close> characters further on.\<close>
  "adv n st = st\<lparr>pos := pos st + n, rest := drop n (rest st)\<rparr>"

definition ci_prefix :: "string \<Rightarrow> string \<Rightarrow> bool" where
  \<comment> \<open>A text begins with a word, up to the case of the letters.\<close>
  "ci_prefix w s = (length w \<le> length s \<and> toLowerCase (take (length w) s) = toLowerCase w)"

definition code_execution_re :: js_regex where
  \<comment> \<open>\<^verbatim>\<open>/(exec|execute|eval|script)/i\<close>, the seventh pattern of both tables.\<close>
  "code_execution_re =
     \<lparr>pattern = RGroup 1 (alts [lit ''exec'', lit ''execute'', lit ''eval'', lit ''script'']),
      ignoreCase = True\<rparr>"

definition dangerous_keywords :: "string list" where
  "dangerous_keywords = [''drop'', ''delete'', ''insert'', ''update'', ''create'', ''alter'']"

definition spec_starts_with_select :: "string \<Rightarrow> bool" where
  "spec_starts_with_select sql = prefix ''select'' (toLowerCase (trim sql))"

definition spec_text_after_where :: "string \<Rightarrow> string option" where
  "spec_text_after_where sql =
     (case find_sep ''where'' (toLowerCase sql) of
        None \<Rightarrow> None
      | Some (b, a) \<Rightarrow> Some (drop (length b + 5) sql))"

definition spec_dangerous :: "string \<Rightarrow> bool" where
  "spec_dangerous sql =
     (case spec_text_after_where sql of
        None \<Rightarrow> False
      | Some t \<Rightarrow> list_ex (\<lambda>kw. js_includes (toLowerCase t) kw) dangerous_keywords)"

definition matched_operator :: "string \<Rightarrow> string option" where
  \<comment> \<open>The operator the loop of \<open>evaluateCondition\<close> stops at: the first one, in the order of
      the list, that occurs in the condition.\<close>
  "matched_operator condition = find (\<lambda>op. js_includes condition op) operators"

definition second_piece :: "string \<Rightarrow> string \<Rightarrow> string" where
  \<comment> \<open>Of the text after the first occurrence of an operator, the part before the next
      occurrence, or all of it when there is none.\<close>
  "second_piece op after = (case find_sep op after of None \<Rightarrow> after | Some (b, a) \<Rightarrow> b)"

definition spec_operands :: "string \<Rightarrow> string \<Rightarrow> (string \<times> string) option" where
  \<comment> \<open>The operands as the specification words them: the text before the first occurrence of
      the operator, and the entire remaining text.\<close>
  "spec_operands condition op =
     (case find_sep op condition of
        None \<Rightarrow> None
      | Some (l, after) \<Rightarrow> Some (trim l, trim after))"

definition is_quote :: "char \<Rightarrow> bool" where
  "is_quote c = (c = CHR 0x27 \<or> c = CHR 0x22)"

definition spec_strip_surrounding_quotes :: "string \<Rightarrow> string" where
  \<comment> \<open>The stripping as the specification words it: a quote in front and a quote at the end
      are removed, the characters between them are kept.\<close>
  "spec_strip_surrounding_quotes s =
     (let s1 = (case s of [] \<Rightarrow> [] | c # t \<Rightarrow> if is_quote c then t else s)
      in if s1 \<noteq> [] \<and> is_quote (last s1) then butlast s1 else s1)"

definition spec_relevant :: "(jsnum \<Rightarrow> string) \<Rightarrow> string \<Rightarrow> entry \<Rightarrow> bool" where
  \<comment> \<open>Relevance as the specification words it: the check of the distinct values looks at the
      first five of them only.\<close>
  "spec_relevant numstr q v =
     (js_includes (toLowerCase q) (toLowerCase (column v)) \<or>
      (case metadata v of
         None \<Rightarrow> False
       | Some m \<Rightarrow>
           (case distinctValues m of
              None \<Rightarrow> False
            | Some vals \<Rightarrow>
                list_ex (\<lambda>val. js_includes (toLowerCase q) (toLowerCase (ToString numstr val)))
                  (take 5 vals))))"

definition aggregate_matches :: "string \<Rightarrow> bool" where
  \<comment> \<open>One of the five patterns of \<open>calculateAggregation\<close> matches the query text.\<close>
  "aggregate_matches sqlQuery =
     (exec (aggregate_re ''SUM'') sqlQuery \<noteq> None \<or> exec count_re sqlQuery \<noteq> None \<or>
      exec (aggregate_re ''AVG'') sqlQuery \<noteq> None \<or> exec (aggregate_re ''MAX'') sqlQuery \<noteq> None \<or>
      exec (aggregate_re ''MIN'') sqlQuery \<noteq> None)"

definition zero_failed :: "row \<Rightarrow> row" where
  \<comment> \<open>The row with 0 in the place of every value whose number is not-a-number.\<close>
  "zero_failed r = map (\<lambda>(k, v). (k, if ToNumber v = NaN then JNum (Fin 0) else v)) r"

fun always_sets :: "nat \<Rightarrow> regex \<Rightarrow> bool" where
  \<comment> \<open>Every match of the pattern goes through the capturing group with that number.\<close>
  "always_sets k (RGroup j r) = (j = k \<or> always_sets k r)"
| "always_sets k (RSeq r1 r2) = (always_sets k r1 \<or> always_sets k r2)"
| "always_sets k (RAlt r1 r2) = (always_sets k r1 \<and> always_sets k r2)"
| "always_sets k (RPlus g r) = always_sets k r"
| "always_sets k r = False"

definition result_key :: "(nat \<rightharpoonup> string) \<Rightarrow> string \<Rightarrow> string" where
  \<comment> \<open>The alias that the query text gives after \<^verbatim>\<open>as\<close>, and the default alias when it gives
      none.\<close>
  "result_key m dflt = (case m 2 of None \<Rightarrow> dflt | Some a \<Rightarrow> a)"

fun consuming :: "regex \<Rightarrow> bool" where
  \<comment> \<open>Every match of the pattern takes at least one character.\<close>
  "consuming (RChar a) = True"
| "consuming (RSeq r1 r2) = (consuming r1 \<or> consuming r2)"
| "consuming (RAlt r1 r2) = (consuming r1 \<and> consuming r2)"
| "consuming (RPlus g r) = consuming r"
| "consuming (RGroup j r) = consuming r"
| "consuming r = False"

fun groups_consume :: "nat \<Rightarrow> regex \<Rightarrow> bool" where
  \<comment> \<open>Wherever the group with that number stands in the pattern, what it captures is not
      empty.\<close>
  "groups_consume k (RGroup j r) = ((j = k \<longrightarrow> consuming r) \<and> groups_consume k r)"
| "groups_consume k (RSeq r1 r2) = (groups_consume k r1 \<and> groups_consume k r2)"
| "groups_consume k (RAlt r1 r2) = (groups_consume k r1 \<and> groups_consume k r2)"
| "groups_consume k (RStar g r) = groups_consume k r"
| "groups_consume k (RPlus g r) = groups_consume k r"
| "groups_consume k (ROpt r) = groups_consume k r"
| "groups_consume k r = True"

section \<open>Lemmas\<close>

subsection \<open>Letters and their case\<close>

lemma fold_equiv: "(canonicalize c = canonicalize d) = (toLowerCase_char c = toLowerCase_char d)"
  by (cases c; cases d) (auto simp: canonicalize_def toLowerCase_char_def)

lemma letters_listed:
  "filter ascii_letter Enum.enum = ''ABCDEFGHIJKLMNOPQRSTUVWXYZabcdefghijklmnopqrstuvwxyz''"
  "filter latin1_letter Enum.enum =
     [CHR 0xC0, CHR 0xC1, CHR 0xC2, CHR 0xC3, CHR 0xC4, CHR 0xC5, CHR 0xC6, CHR 0xC7,
      CHR 0xC8, CHR 0xC9, CHR 0xCA, CHR 0xCB, CHR 0xCC, CHR 0xCD, CHR 0xCE, CHR 0xCF,
      CHR 0xD0, CHR 0xD1, CHR 0xD2, CHR 0xD3, CHR 0xD4, CHR 0xD5, CHR 0xD6, CHR 0xD8,
      CHR 0xD9, CHR 0xDA, CHR 0xDB, CHR 0xDC, CHR 0xDD, CHR 0xDE] @
     [CHR 0xE0, CHR 0xE1, CHR 0xE2, CHR 0xE3, CHR 0xE4, CHR 0xE5, CHR 0xE6, CHR 0xE7,
      CHR 0xE8, CHR 0xE9, CHR 0xEA, CHR 0xEB, CHR 0xEC, CHR 0xED, CHR 0xEE, CHR 0xEF,
      CHR 0xF0, CHR 0xF1, CHR 0xF2, CHR 0xF3, CHR 0xF4, CHR 0xF5, CHR 0xF6, CHR 0xF8,
      CHR 0xF9, CHR 0xFA, CHR 0xFB, CHR 0xFC, CHR 0xFD, CHR 0xFE]"
  by code_simp+

lemma case_mapping_listed:
  "map toLowerCase_char ''ABCDEFGHIJKLMNOPQRSTUVWXYZ'' = ''abcdefghijklmnopqrstuvwxyz''"
  "map canonicalize ''abcdefghijklmnopqrstuvwxyz'' = ''ABCDEFGHIJKLMNOPQRSTUVWXYZ''"
  "map toLowerCase_char
     [CHR 0xC0, CHR 0xC1, CHR 0xC2, CHR 0xC3, CHR 0xC4, CHR 0xC5, CHR 0xC6, CHR 0xC7,
      CHR 0xC8, CHR 0xC9, CHR 0xCA, CHR 0xCB, CHR 0xCC, CHR 0xCD, CHR 0xCE, CHR 0xCF,
      CHR 0xD0, CHR 0xD1, CHR 0xD2, CHR 0xD3, CHR 0xD4, CHR 0xD5, CHR 0xD6, CHR 0xD8,
      CHR 0xD9, CHR 0xDA, CHR 0xDB, CHR 0xDC, CHR 0xDD, CHR 0xDE] =
     [CHR 0xE0, CHR 0xE1, CHR 0xE2, CHR 0xE3, CHR 0xE4, CHR 0xE5, CHR 0xE6, CHR 0xE7,
      CHR 0xE8, CHR 0xE9, CHR 0xEA, CHR 0xEB, CHR 0xEC, CHR 0xED, CHR 0xEE, CHR 0xEF,
      CHR 0xF0, CHR 0xF1, CHR 0xF2, CHR 0xF3, CHR 0xF4, CHR 0xF5, CHR 0xF6, CHR 0xF8,
      CHR 0xF9, CHR 0xFA, CHR 0xFB, CHR 0xFC, CHR 0xFD, CHR 0xFE]"
  "map canonicalize
     [CHR 0xE0, CHR 0xE1, CHR 0xE2, CHR 0xE3, CHR 0xE4, CHR 0xE5, CHR 0xE6, CHR 0xE7,
      CHR 0xE8, CHR 0xE9, CHR 0xEA, CHR 0xEB, CHR 0xEC, CHR 0xED, CHR 0xEE, CHR 0xEF,
      CHR 0xF0, CHR 0xF1, CHR 0xF2, CHR 0xF3, CHR 0xF4, CHR 0xF5, CHR 0xF6, CHR 0xF8,
      CHR 0xF9, CHR 0xFA, CHR 0xFB, CHR 0xFC, CHR 0xFD, CHR 0xFE] =
     [CHR 0xC0, CHR 0xC1, CHR 0xC2, CHR 0xC3, CHR 0xC4, CHR 0xC5, CHR 0xC6, CHR 0xC7,
      CHR 0xC8, CHR 0xC9, CHR 0xCA, CHR 0xCB, CHR 0xCC, CHR 0xCD, CHR 0xCE, CHR 0xCF,
      CHR 0xD0, CHR 0xD1, CHR 0xD2, CHR 0xD3, CHR 0xD4, CHR 0xD5, CHR 0xD6, CHR 0xD8,
      CHR 0xD9, CHR 0xDA, CHR 0xDB, CHR 0xDC, CHR 0xDD, CHR 0xDE]"
  by code_simp+

lemma classes_listed:
  "filter is_digit Enum.enum = ''0123456789''"
  "filter is_word Enum.enum =
     ''0123456789ABCDEFGHIJKLMNOPQRSTUVWXYZ_abcdefghijklmnopqrstuvwxyz''"
  by code_simp+

lemma ci_eq_lower:
  "(map canonicalize u = map canonicalize w) = (toLowerCase u = toLowerCase w)"
  unfolding toLowerCase_def
proof (induction u arbitrary: w)
  case Nil
  show ?case by auto
next
  case (Cons a u)
  show ?case
    by (cases w) (simp_all add: fold_equiv Cons)
qed

subsection \<open>Literals, groups, alternatives and sequences\<close>

lemma adv_0 [simp]: "adv 0 st = st"
  by (simp add: adv_def)

lemma adv_adv [simp]: "adv m (adv n st) = adv (n + m) st"
  by (simp add: adv_def add.assoc add.commute)

lemma rest_adv [simp]: "rest (adv n st) = drop n (rest st)"
  by (simp add: adv_def)

lemma pos_adv [simp]: "pos (adv n st) = pos st + n"
  by (simp add: adv_def)

lemma caps_adv [simp]: "caps (adv n st) = caps st"
  by (simp add: adv_def)

lemma run_char:
  "run ci (RChar a) st =
     (case rest st of [] \<Rightarrow> [] | c # cs \<Rightarrow> if cmatch ci a c then [adv 1 st] else [])"
  by (simp add: adv_def split: list.splits)

lemma ci_prefix_Nil [simp]: "ci_prefix [] s"
  by (simp add: ci_prefix_def toLowerCase_def)

lemma ci_prefix_Cons:
  "ci_prefix (c # w) s =
     (case s of [] \<Rightarrow> False | d # t \<Rightarrow> toLowerCase_char d = toLowerCase_char c \<and> ci_prefix w t)"
  by (auto simp: ci_prefix_def toLowerCase_def split: list.splits)

lemma run_lit:
  "run True (lit w) st = (if ci_prefix w (rest st) then [adv (length w) st] else [])"
proof (induction w arbitrary: st rule: lit.induct)
  case 1
  show ?case by simp
next
  case (2 c)
  show ?case
    by (auto simp: ci_prefix_Cons fold_equiv adv_def split: list.splits)
next
  case (3 c v va)
  show ?case
    using 3[of "adv 1 st"]
    by (cases "rest st") (auto simp: ci_prefix_Cons[of c] fold_equiv run_char simp del: run.simps(1))
qed

lemma run_group_empty [simp]: "(run ci (RGroup k r) st = []) = (run ci r st = [])"
  by simp

lemma run_alt_empty [simp]: "(run ci (RAlt r1 r2) st = []) = (run ci r1 st = [] \<and> run ci r2 st = [])"
  by simp

lemma concat_map_empty: "(concat (map f xs) = []) = (\<forall>x \<in> set xs. f x = [])"
  by (induction xs) auto

lemma run_seq_empty:
  "(run ci (RSeq r1 r2) st = []) = (\<forall>st' \<in> set (run ci r1 st). run ci r2 st' = [])"
  by (simp add: concat_map_empty)

subsection \<open>Where a pattern matches\<close>

lemma search_iff:
  "(search ci r i s \<noteq> None) =
     (\<exists>k \<le> length s. run ci r \<lparr>pos = i + k, rest = drop k s, caps = Map.empty\<rparr> \<noteq> [])"
proof (induction s arbitrary: i)
  case Nil
  show ?case by (simp split: list.splits)
next
  case (Cons c cs)
  show ?case
  proof (cases "run ci r \<lparr>pos = i, rest = c # cs, caps = Map.empty\<rparr>")
    case Nil
    have "(\<exists>k \<le> length (c # cs). run ci r \<lparr>pos = i + k, rest = drop k (c # cs), caps = Map.empty\<rparr> \<noteq> [])
        = (\<exists>k \<le> length cs. run ci r \<lparr>pos = Suc i + k, rest = drop k cs, caps = Map.empty\<rparr> \<noteq> [])"
      (is "?L = ?R")
    proof
      assume ?L
      then obtain k where k: "k \<le> length (c # cs)"
        "run ci r \<lparr>pos = i + k, rest = drop k (c # cs), caps = Map.empty\<rparr> \<noteq> []" by blast
      with Nil have "k \<noteq> 0" by (cases k) auto
      then obtain j where "k = Suc j" by (cases k) auto
      with k show ?R by (intro exI[of _ j]) auto
    next
      assume ?R
      then obtain j where "j \<le> length cs"
        "run ci r \<lparr>pos = Suc i + j, rest = drop j cs, caps = Map.empty\<rparr> \<noteq> []" by blast
      then show ?L by (intro exI[of _ "Suc j"]) auto
    qed
    with Nil Cons[of "Suc i"] show ?thesis by simp
  next
    case (Cons st sts)
    then have "run ci r \<lparr>pos = i + 0, rest = drop 0 (c # cs), caps = Map.empty\<rparr> \<noteq> []" by simp
    then have "\<exists>k \<le> length (c # cs). run ci r \<lparr>pos = i + k, rest = drop k (c # cs), caps = Map.empty\<rparr> \<noteq> []"
      by blast
    with Cons show ?thesis by simp
  qed
qed

lemma exec_iff:
  "(exec re s \<noteq> None) =
     (\<exists>k \<le> length s. run (ignoreCase re) (pattern re) \<lparr>pos = k, rest = drop k s, caps = Map.empty\<rparr> \<noteq> [])"
proof -
  have "(exec re s \<noteq> None) = (search (ignoreCase re) (RGroup 0 (pattern re)) 0 s \<noteq> None)"
    by (auto simp: exec_def split: option.splits)
  then show ?thesis
    unfolding search_iff by simp
qed


subsection \<open>Occurrences of a word\<close>

lemma js_includes_iff: "js_includes s sub = (\<exists>k \<le> length s. prefix sub (drop k s))"
proof (induction s)
  case Nil
  show ?case by auto
next
  case (Cons c cs)
  have "(\<exists>k \<le> length (c # cs). prefix sub (drop k (c # cs)))
      = (prefix sub (c # cs) \<or> (\<exists>k \<le> length cs. prefix sub (drop k cs)))" (is "?L = ?R")
  proof
    assume ?L
    then obtain k where k: "k \<le> length (c # cs)" "prefix sub (drop k (c # cs))" by blast
    show ?R
    proof (cases k)
      case 0
      with k show ?thesis by simp
    next
      case (Suc j)
      with k show ?thesis by auto
    qed
  next
    assume ?R
    then show ?L
    proof
      assume "prefix sub (c # cs)"
      then show ?L by (intro exI[of _ 0]) simp
    next
      assume "\<exists>k \<le> length cs. prefix sub (drop k cs)"
      then obtain j where "j \<le> length cs" "prefix sub (drop j cs)" by blast
      then show ?L by (intro exI[of _ "Suc j"]) simp
    qed
  qed
  with Cons show ?case by simp
qed

lemma prefix_take_iff: "prefix w xs = (length w \<le> length xs \<and> take (length w) xs = w)"
proof
  assume "prefix w xs"
  then show "length w \<le> length xs \<and> take (length w) xs = w"
    by (auto simp: prefix_def)
next
  assume "length w \<le> length xs \<and> take (length w) xs = w"
  then have "xs = w @ drop (length w) xs"
    by (metis append_take_drop_id)
  then show "prefix w xs"
    by (metis prefixI)
qed

lemma prefix_lower_iff:
  "toLowerCase w = w \<Longrightarrow> prefix w (drop k (toLowerCase s)) = ci_prefix w (drop k s)"
  unfolding ci_prefix_def prefix_take_iff toLowerCase_def
  by (simp add: drop_map take_map)

lemma includes_lower_iff:
  "toLowerCase w = w \<Longrightarrow>
     js_includes (toLowerCase s) w = (\<exists>k \<le> length s. ci_prefix w (drop k s))"
  by (simp add: js_includes_iff prefix_lower_iff) (simp add: toLowerCase_def)

lemma test_iff:
  "test re s =
     (\<exists>k \<le> length s. run (ignoreCase re) (pattern re) \<lparr>pos = k, rest = drop k s, caps = Map.empty\<rparr> \<noteq> [])"
  unfolding test_def by (rule exec_iff)

lemma test_code_execution:
  "test code_execution_re s =
     (js_includes (toLowerCase s) ''exec'' \<or> js_includes (toLowerCase s) ''eval''
      \<or> js_includes (toLowerCase s) ''script'')"
proof -
  have low: "toLowerCase ''exec'' = ''exec''" "toLowerCase ''eval'' = ''eval''"
    "toLowerCase ''script'' = ''script''" "toLowerCase ''execute'' = ''execute''"
    by code_simp+
  have sub: "\<And>t. ci_prefix ''execute'' t \<Longrightarrow> ci_prefix ''exec'' t"
    by (auto simp: ci_prefix_Cons split: list.splits)
  show ?thesis
    unfolding test_iff includes_lower_iff[OF low(1)] includes_lower_iff[OF low(2)]
      includes_lower_iff[OF low(3)]
    by (auto simp: code_execution_re_def run_lit simp del: run.simps lit.simps dest: sub)
qed

lemma code_execution_in_server:
  "(code_execution_re, ''Code Execution Attempt'') \<in> set server_suspiciousPatterns"
  by (simp add: server_suspiciousPatterns_def code_execution_re_def)

lemma code_execution_in_client:
  "(code_execution_re, ''Code Execution Attempt'') \<in> set client_suspiciousPatterns"
  by (simp add: client_suspiciousPatterns_def code_execution_re_def)

subsection \<open>Repeated character classes\<close>

lemma repeat_nonempty: "repeat g f n st \<noteq> []"
  by (cases n; cases g) (simp_all add: Let_def)

lemma run_plus_char_empty:
  "(run ci (RPlus g (RChar a)) st = []) =
     (case rest st of [] \<Rightarrow> True | c # cs \<Rightarrow> \<not> cmatch ci a c)"
  by (cases "rest st") (simp_all add: repeat_nonempty)

lemma run_spaces1_empty:
  "(run ci spaces1 st = []) = (case rest st of [] \<Rightarrow> True | c # cs \<Rightarrow> \<not> is_space c)"
  unfolding spaces1_def run_plus_char_empty by (simp split: list.splits)

lemma repeat_char_ex:
  assumes f: "\<And>st. f st = (case rest st of [] \<Rightarrow> [] | c # cs \<Rightarrow> if p c then [adv 1 st] else [])"
  shows "length (rest st) \<le> n \<Longrightarrow>
   (\<exists>st' \<in> set (repeat g f n st). P st') =
   (\<exists>j \<le> length (rest st). (\<forall>c \<in> set (take j (rest st)). p c) \<and> P (adv j st))"
proof (induction n arbitrary: st)
  case 0
  then show ?case by simp
next
  case (Suc n)
  show ?case
  proof (cases "rest st")
    case Nil
    then show ?thesis by (cases g) (simp_all add: Let_def f)
  next
    case (Cons c cs)
    show ?thesis
    proof (cases "p c")
      case False
      have "(\<exists>j \<le> length (rest st). (\<forall>c \<in> set (take j (rest st)). p c) \<and> P (adv j st))
          = P st" (is "?L = _")
      proof
        assume ?L
        then obtain j where j: "j \<le> length (rest st)"
          "\<forall>c \<in> set (take j (rest st)). p c" "P (adv j st)" by blast
        with False Cons have "j = 0" by (cases j) auto
        with j show "P st" by simp
      next
        assume "P st"
        then show ?L by (intro exI[of _ 0]) simp
      qed
      moreover have "f st = []" using False Cons by (simp add: f)
      ultimately show ?thesis by (cases g) (simp_all add: Let_def)
    next
      case True
      have len: "length (rest (adv 1 st)) \<le> n" using Suc.prems Cons by simp
      have step: "filter (\<lambda>st'. length (rest st') < length (rest st)) (f st) = [adv 1 st]"
        using True Cons by (simp add: f)
      have "(\<exists>j \<le> length (rest st). (\<forall>c \<in> set (take j (rest st)). p c) \<and> P (adv j st))
          = (P st \<or> (\<exists>j \<le> length cs. (\<forall>c \<in> set (take j cs). p c) \<and> P (adv (Suc j) st)))"
        (is "?L = ?R")
      proof
        assume ?L
        then obtain j where j: "j \<le> length (rest st)"
          "\<forall>c \<in> set (take j (rest st)). p c" "P (adv j st)" by blast
        show ?R
        proof (cases j)
          case 0
          with j show ?thesis by simp
        next
          case (Suc i)
          with j Cons show ?thesis by auto
        qed
      next
        assume ?R
        then show ?L
        proof
          assume "P st"
          then show ?L by (intro exI[of _ 0]) simp
        next
          assume "\<exists>j \<le> length cs. (\<forall>c \<in> set (take j cs). p c) \<and> P (adv (Suc j) st)"
          then obtain i where "i \<le> length cs" "\<forall>c \<in> set (take i cs). p c"
            "P (adv (Suc i) st)" by blast
          with True Cons show ?L by (intro exI[of _ "Suc i"]) auto
        qed
      qed
      moreover have "(\<exists>st' \<in> set (repeat g f (Suc n) st). P st')
          = (P st \<or> (\<exists>st' \<in> set (repeat g f n (adv 1 st)). P st'))"
        by (cases g) (auto simp add: Let_def step)
      ultimately show ?thesis
        using Suc.IH[OF len] Cons by simp
    qed
  qed
qed

lemma run_star_char_seq_empty:
  "(run ci (RSeq (RStar g (RChar a)) r) st \<noteq> []) =
     (\<exists>j \<le> length (rest st). (\<forall>c \<in> set (take j (rest st)). cmatch ci a c)
        \<and> run ci r (adv j st) \<noteq> [])"
proof -
  have "(run ci (RSeq (RStar g (RChar a)) r) st \<noteq> []) =
        (\<exists>st' \<in> set (repeat g (run ci (RChar a)) (length (rest st)) st). run ci r st' \<noteq> [])"
    by (simp add: concat_map_empty del: run.simps(1))
  then show ?thesis
    using repeat_char_ex[of "run ci (RChar a)" "cmatch ci a" st "length (rest st)" g
        "\<lambda>st'. run ci r st' \<noteq> []", OF run_char] by simp
qed

subsection \<open>The patterns of the grammar check\<close>

lemma ci_prefix_decomp:
  "ci_prefix w0 s = (\<exists>w t. s = w @ t \<and> toLowerCase w = toLowerCase w0)"
proof
  assume "ci_prefix w0 s"
  then have "s = take (length w0) s @ drop (length w0) s \<and> toLowerCase (take (length w0) s) = toLowerCase w0"
    by (simp add: ci_prefix_def)
  then show "\<exists>w t. s = w @ t \<and> toLowerCase w = toLowerCase w0" by blast
next
  assume "\<exists>w t. s = w @ t \<and> toLowerCase w = toLowerCase w0"
  then obtain w t where wt: "s = w @ t" "toLowerCase w = toLowerCase w0" by blast
  then have "length w = length w0"
    by (metis length_map toLowerCase_def)
  with wt show "ci_prefix w0 s" by (simp add: ci_prefix_def)
qed

lemma select_start_iff:
  "(exec select_start_re sql \<noteq> None) =
     (\<exists>w c t. sql = w @ c # t \<and> toLowerCase w = ''select'' \<and> is_space c)"
proof -
  define n where "n = length ''SELECT''"
  have low: "toLowerCase ''SELECT'' = ''select''" by code_simp
  have "(exec select_start_re sql \<noteq> None) =
        (run True (pattern select_start_re) \<lparr>pos = 0, rest = sql, caps = Map.empty\<rparr> \<noteq> [])"
    unfolding exec_iff
    by (auto simp: select_start_re_def intro: exI[of _ 0])
  also have "\<dots> = (ci_prefix ''SELECT'' sql \<and> (case drop n sql of [] \<Rightarrow> False | c # cs \<Rightarrow> is_space c))"
  proof -
    have bol: "run True RBol \<lparr>pos = 0, rest = sql, caps = Map.empty\<rparr>
        = [\<lparr>pos = 0, rest = sql, caps = Map.empty\<rparr>]" by simp
    show ?thesis
      unfolding n_def
      by (auto simp add: select_start_re_def run_seq_empty bol run_lit run_spaces1_empty
          simp del: run.simps lit.simps split: list.splits)
  qed
  also have "\<dots> = (\<exists>w c t. sql = w @ c # t \<and> toLowerCase w = ''select'' \<and> is_space c)"
    (is "?L = ?R")
  proof
    assume ?L
    then obtain c cs where d: "drop n sql = c # cs" "is_space c" and p: "ci_prefix ''SELECT'' sql"
      by (auto split: list.splits)
    have "sql = take n sql @ c # cs" using d by (metis append_take_drop_id)
    moreover have "toLowerCase (take n sql) = ''select''"
      using p low by (simp add: ci_prefix_def n_def)
    ultimately show ?R using d by blast
  next
    assume ?R
    then obtain w c t where w: "sql = w @ c # t" "toLowerCase w = ''select''" "is_space c" by blast
    have "length (toLowerCase w) = length w" by (simp add: toLowerCase_def)
    with w have "length w = n" by (simp add: n_def)
    with w low show ?L by (simp add: ci_prefix_def n_def)
  qed
  finally show ?thesis .
qed

lemma ci_prefix_cong: "toLowerCase w = toLowerCase w' \<Longrightarrow> ci_prefix w s = ci_prefix w' s"
proof -
  assume a: "toLowerCase w = toLowerCase w'"
  then have "length w = length w'" by (metis length_map toLowerCase_def)
  with a show ?thesis by (simp add: ci_prefix_def)
qed

lemma positions_decomp:
  "(\<exists>k \<le> length s. ci_prefix w0 (drop k s) \<and>
      (\<exists>j \<le> length (drop (length w0) (drop k s)).
          (\<forall>c \<in> set (take j (drop (length w0) (drop k s))). Q c) \<and>
          R (drop j (drop (length w0) (drop k s)))))
   = (\<exists>pre w mid t. s = pre @ w @ mid @ t \<and> toLowerCase w = toLowerCase w0 \<and>
        (\<forall>c \<in> set mid. Q c) \<and> R t)" (is "?L = ?R")
proof
  assume ?L
  then obtain k j where k: "ci_prefix w0 (drop k s)"
    and j: "\<forall>c \<in> set (take j (drop (length w0) (drop k s))). Q c"
      "R (drop j (drop (length w0) (drop k s)))" by blast
  let ?u = "drop k s" let ?v = "drop (length w0) ?u"
  have "s = take k s @ take (length w0) ?u @ take j ?v @ drop j ?v"
    by (metis append_take_drop_id)
  moreover have "toLowerCase (take (length w0) ?u) = toLowerCase w0"
    using k by (simp add: ci_prefix_def)
  ultimately show ?R using j by blast
next
  assume ?R
  then obtain pre w mid t where d: "s = pre @ w @ mid @ t" "toLowerCase w = toLowerCase w0"
    "\<forall>c \<in> set mid. Q c" "R t" by blast
  have lw: "length w = length w0" using d(2) by (metis length_map toLowerCase_def)
  have 1: "length pre \<le> length s" using d(1) by simp
  have 2: "drop (length pre) s = w @ mid @ t" using d(1) by simp
  have 3: "ci_prefix w0 (drop (length pre) s)"
    unfolding 2 using d(2) lw by (simp add: ci_prefix_def)
  have 4: "drop (length w0) (drop (length pre) s) = mid @ t"
    unfolding 2 using lw by simp
  show ?L
    apply (rule exI[of _ "length pre"])
    apply (intro conjI 1 3)
    apply (rule exI[of _ "length mid"])
    unfolding 4 using d(3,4) by simp
qed

lemma dangerous_state:
  "(run True (pattern dangerous_re) st \<noteq> []) =
     (ci_prefix ''where'' (rest st) \<and>
      (\<exists>j \<le> length (drop (length ''where'') (rest st)).
          (\<forall>c \<in> set (take j (drop (length ''where'') (rest st))). \<not> is_line_terminator c) \<and>
          (\<exists>kw \<in> set dangerous_keywords.
              ci_prefix kw (drop j (drop (length ''where'') (rest st))))))"
proof -
  have low: "toLowerCase ''WHERE'' = toLowerCase ''where''"
    "toLowerCase ''DROP'' = toLowerCase ''drop''" "toLowerCase ''DELETE'' = toLowerCase ''delete''"
    "toLowerCase ''INSERT'' = toLowerCase ''insert''" "toLowerCase ''UPDATE'' = toLowerCase ''update''"
    "toLowerCase ''CREATE'' = toLowerCase ''create''" "toLowerCase ''ALTER'' = toLowerCase ''alter''"
    by code_simp+
  note cp = low[THEN ci_prefix_cong]
  let ?kws = "RGroup 1 (alts [lit ''DROP'', lit ''DELETE'', lit ''INSERT'', lit ''UPDATE'',
                                      lit ''CREATE'', lit ''ALTER''])"
  have kw: "\<And>st'. (run True ?kws st' \<noteq> []) = (\<exists>kw \<in> set dangerous_keywords. ci_prefix kw (rest st'))"
    by (simp add: run_lit cp dangerous_keywords_def del: run.simps(1,2) lit.simps)
  have "(run True (pattern dangerous_re) st \<noteq> []) =
        (ci_prefix ''where'' (rest st) \<and>
           run True (RSeq (RStar Lazy (RChar Dot)) ?kws) (adv (length ''WHERE'') st) \<noteq> [])"
    by (simp add: dangerous_re_def run_seq_empty[of True "lit ''WHERE''"] run_lit cp
          del: run.simps lit.simps)
  then show ?thesis
    unfolding run_star_char_seq_empty kw by simp
qed

lemma dangerous_iff:
  "(exec dangerous_re sql \<noteq> None) =
     (\<exists>pre w mid kw post. sql = pre @ w @ mid @ kw @ post \<and> toLowerCase w = ''where'' \<and>
        toLowerCase kw \<in> set dangerous_keywords \<and> (\<forall>c \<in> set mid. \<not> is_line_terminator c))"
proof -
  have low: "toLowerCase ''where'' = ''where''" by code_simp
  have ic: "ignoreCase dangerous_re = True" by (simp add: dangerous_re_def)
  have lowk: "\<And>kw. kw \<in> set dangerous_keywords \<Longrightarrow> toLowerCase kw = kw"
    unfolding dangerous_keywords_def by (simp, elim disjE; simp; code_simp)
  have R: "\<And>t. (\<exists>kw \<in> set dangerous_keywords. ci_prefix kw t)
      = (\<exists>kw post. t = kw @ post \<and> toLowerCase kw \<in> set dangerous_keywords)"
    unfolding ci_prefix_decomp using lowk by metis
  have "(exec dangerous_re sql \<noteq> None) =
     (\<exists>k \<le> length sql. ci_prefix ''where'' (drop k sql) \<and>
      (\<exists>j \<le> length (drop (length ''where'') (drop k sql)).
          (\<forall>c \<in> set (take j (drop (length ''where'') (drop k sql))). \<not> is_line_terminator c) \<and>
          (\<exists>kw \<in> set dangerous_keywords.
              ci_prefix kw (drop j (drop (length ''where'') (drop k sql))))))"
    unfolding exec_iff ic dangerous_state by simp
  also have "\<dots> = (\<exists>pre w mid t. sql = pre @ w @ mid @ t \<and> toLowerCase w = toLowerCase ''where'' \<and>
        (\<forall>c \<in> set mid. \<not> is_line_terminator c) \<and> (\<exists>kw \<in> set dangerous_keywords. ci_prefix kw t))"
    by (rule positions_decomp)
  also have "\<dots> = (\<exists>pre w mid kw post. sql = pre @ w @ mid @ kw @ post \<and> toLowerCase w = ''where'' \<and>
        toLowerCase kw \<in> set dangerous_keywords \<and> (\<forall>c \<in> set mid. \<not> is_line_terminator c))"
    unfolding R low by blast
  finally show ?thesis .
qed

subsection \<open>Splitting a condition\<close>

lemma js_includes_find_sep: "js_includes c op = (find_sep op c \<noteq> None)"
  by (induction c) auto

lemma find_sep_length:
  "find_sep op c = Some (l, after) \<Longrightarrow> op \<noteq> [] \<Longrightarrow> length after < length c"
proof (induction c arbitrary: l)
  case Nil
  then show ?case by simp
next
  case (Cons x xs)
  show ?case
  proof (cases "prefix op (x # xs)")
    case True
    with Cons.prems show ?thesis by (cases op) auto
  next
    case False
    with Cons.prems obtain b where "find_sep op xs = Some (b, after)"
      by (auto split: option.splits)
    from Cons.IH[OF this Cons.prems(2)] show ?thesis by simp
  qed
qed

lemma hd_split_n:
  "length s \<le> n \<Longrightarrow> op \<noteq> [] \<Longrightarrow> \<exists>ps. split_n n op s = second_piece op s # ps"
proof (cases n)
  case 0
  assume "length s \<le> n" "op \<noteq> []"
  with 0 show ?thesis by (simp add: second_piece_def)
next
  case (Suc m)
  show ?thesis unfolding Suc by (auto simp: second_piece_def split: option.splits)
qed

lemma operands_find_sep:
  assumes "js_includes condition op" "op \<noteq> []"
  shows "\<exists>l after. find_sep op condition = Some (l, after) \<and>
           operands condition op = Some (trim l, trim (second_piece op after))"
proof -
  from assms(1) obtain l after where fs: "find_sep op condition = Some (l, after)"
    unfolding js_includes_find_sep by auto
  from find_sep_length[OF fs assms(2)] have len: "length after < length condition" .
  then obtain n where n: "length condition = Suc n" by (cases "length condition") auto
  with len have "length after \<le> n" by simp
  from hd_split_n[OF this assms(2)] obtain ps where "split_n n op after = second_piece op after # ps"
    by blast
  with fs n have "split condition op = l # second_piece op after # ps"
    by (simp add: split_def)
  then have "operands condition op = Some (trim l, trim (second_piece op after))"
    by (simp add: operands_def)
  with fs show ?thesis by blast
qed

lemma operators_nonempty: "op \<in> set operators \<Longrightarrow> op \<noteq> []"
  by (auto simp: operators_def)

lemma switch_op_total: "op \<in> set operators \<Longrightarrow> \<exists>b. switch_op numstr op lv rv = Some b"
  by (auto simp: operators_def switch_op_def)

lemma eval_ops_matched:
  assumes "find (\<lambda>op. js_includes condition op) ops = Some op"
    and "operands condition op = Some (left, right)"
    and "switch_op numstr op (leftVal r left) (strip_quotes right) = Some b"
  shows "eval_ops numstr r condition ops = Inr b"
  using assms by (induction ops) (auto split: if_splits)

lemma eval_ops_unmatched:
  "find (\<lambda>op. js_includes condition op) ops = None \<Longrightarrow> eval_ops numstr r condition ops = Inr True"
  by (induction ops) (auto split: if_splits)

lemma matched_operatorD:
  "matched_operator condition = Some op \<Longrightarrow> op \<in> set operators \<and> js_includes condition op"
  unfolding matched_operator_def by (auto simp: find_Some_iff)

lemma evaluateCondition_matched:
  assumes "matched_operator condition = Some op"
  shows "\<exists>l after b. find_sep op condition = Some (l, after) \<and>
           operands condition op = Some (trim l, trim (second_piece op after)) \<and>
           switch_op numstr op (leftVal r (trim l)) (strip_quotes (trim (second_piece op after))) = Some b \<and>
           evaluateCondition numstr r condition = Inr b"
proof -
  from matched_operatorD[OF assms] have op: "op \<in> set operators" "js_includes condition op" by auto
  from operands_find_sep[OF op(2) operators_nonempty[OF op(1)]]
  obtain l after where la: "find_sep op condition = Some (l, after)"
    "operands condition op = Some (trim l, trim (second_piece op after))" by blast
  from switch_op_total[OF op(1)] obtain b where
    b: "switch_op numstr op (leftVal r (trim l)) (strip_quotes (trim (second_piece op after))) = Some b"
    by blast
  from eval_ops_matched[OF assms[unfolded matched_operator_def] la(2) b]
  have "evaluateCondition numstr r condition = Inr b"
    by (simp add: evaluateCondition_def)
  with la b show ?thesis by blast
qed

lemma evaluateCondition_total: "\<exists>b. evaluateCondition numstr r condition = Inr b"
proof (cases "matched_operator condition")
  case None
  then have "find (\<lambda>op. js_includes condition op) operators = None"
    by (simp add: matched_operator_def)
  from eval_ops_unmatched[OF this] have "evaluateCondition numstr r condition = Inr True"
    by (simp add: evaluateCondition_def)
  then show ?thesis by (rule exI)
next
  case (Some op)
  from evaluateCondition_matched[OF this] show ?thesis by blast
qed

lemma num_lt_NaN [simp]: "num_lt x NaN = False" "num_lt NaN x = False"
  by (cases x; simp)+

subsection \<open>Aggregation\<close>

lemma get_zero_failed:
  "get (zero_failed r) k =
     (case map_of r k of
        None \<Rightarrow> Undefined
      | Some v \<Rightarrow> if ToNumber v = NaN then JNum (Fin 0) else v)"
  by (induction r) (auto simp: get_def zero_failed_def)

lemma coerced_zero_failed: "coerced col (zero_failed r) = coerced col r"
proof (cases "map_of r col")
  case None
  then show ?thesis by (simp add: coerced_def get_zero_failed) (simp add: get_def)
next
  case (Some v)
  then show ?thesis by (simp add: coerced_def get_zero_failed) (simp add: get_def or0_def)
qed

lemma sum_column_zero_failed: "sum_column col (map zero_failed results) = sum_column col results"
proof -
  have "\<And>acc. foldl (\<lambda>acc r. num_add acc (coerced col r)) acc (map zero_failed results)
      = foldl (\<lambda>acc r. num_add acc (coerced col r)) acc results"
    by (induction results) (simp_all add: coerced_zero_failed)
  then show ?thesis by (simp add: sum_column_def)
qed

lemma coerced_map_zero_failed:
  "map (coerced col \<circ> zero_failed) results = map (coerced col) results"
  by (simp add: coerced_zero_failed)

lemma calculateAggregation_zero_failed:
  "aggregate_matches q \<Longrightarrow>
     calculateAggregation ma (map zero_failed results) q = calculateAggregation ma results q"
  unfolding aggregate_matches_def calculateAggregation_def
  by (auto simp: Let_def sum_column_zero_failed coerced_map_zero_failed split: option.splits)

lemma calculateAggregation_fallthrough:
  "\<not> aggregate_matches q \<Longrightarrow> calculateAggregation ma results q = Inr results"
  unfolding aggregate_matches_def calculateAggregation_def
  by (auto simp: Let_def split: option.splits)

lemma calculateAggregation_SUM:
  "exec (aggregate_re ''SUM'') q = Some m \<Longrightarrow>
     calculateAggregation ma results q
       = Inr [[(alias_or m (''SUM('' @ capture m 1 @ '')''), JNum (sum_column (capture m 1) results))]]"
  by (simp add: calculateAggregation_def Let_def)

lemma calculateAggregation_COUNT:
  "exec (aggregate_re ''SUM'') q = None \<Longrightarrow> exec count_re q = Some m \<Longrightarrow>
     calculateAggregation ma results q
       = Inr [[(alias_or m ''COUNT'', JNum (Fin (of_nat (length results))))]]"
  by (simp add: calculateAggregation_def Let_def)

lemma calculateAggregation_AVG:
  "exec (aggregate_re ''SUM'') q = None \<Longrightarrow> exec count_re q = None \<Longrightarrow>
   exec (aggregate_re ''AVG'') q = Some m \<Longrightarrow>
     calculateAggregation ma results q
       = Inr [[(alias_or m (''AVG('' @ capture m 1 @ '')''),
                JNum (num_div_length (sum_column (capture m 1) results) (length results)))]]"
  by (simp add: calculateAggregation_def Let_def)

lemma calculateAggregation_MAX:
  "exec (aggregate_re ''SUM'') q = None \<Longrightarrow> exec count_re q = None \<Longrightarrow>
   exec (aggregate_re ''AVG'') q = None \<Longrightarrow> exec (aggregate_re ''MAX'') q = Some m \<Longrightarrow>
     calculateAggregation ma results q
       = (if ma < length results then Inl RangeError
          else Inr [[(alias_or m (''MAX('' @ capture m 1 @ '')''),
                      JNum (max_of (map (coerced (capture m 1)) results)))]])"
  by (simp add: calculateAggregation_def Let_def Math_max_def)

lemma calculateAggregation_MIN:
  "exec (aggregate_re ''SUM'') q = None \<Longrightarrow> exec count_re q = None \<Longrightarrow>
   exec (aggregate_re ''AVG'') q = None \<Longrightarrow> exec (aggregate_re ''MAX'') q = None \<Longrightarrow>
   exec (aggregate_re ''MIN'') q = Some m \<Longrightarrow>
     calculateAggregation ma results q
       = (if ma < length results then Inl RangeError
          else Inr [[(alias_or m (''MIN('' @ capture m 1 @ '')''),
                      JNum (min_of (map (coerced (capture m 1)) results)))]])"
  by (simp add: calculateAggregation_def Let_def Math_min_def)

lemma calculateAggregation_error:
  "calculateAggregation ma results q = Inl e \<Longrightarrow>
     e = RangeError \<and> ma < length results \<and>
     exec (aggregate_re ''SUM'') q = None \<and> exec count_re q = None \<and>
     exec (aggregate_re ''AVG'') q = None \<and>
     (exec (aggregate_re ''MAX'') q \<noteq> None \<or> exec (aggregate_re ''MIN'') q \<noteq> None)"
  unfolding calculateAggregation_def Math_max_def Math_min_def
  by (auto simp: Let_def split: option.splits if_splits)

subsection \<open>Captures\<close>

lemma repeat_preserves:
  assumes "\<And>st st'. st' \<in> set (f st) \<Longrightarrow> P st \<Longrightarrow> P st'"
  shows "st' \<in> set (repeat g f n st) \<Longrightarrow> P st \<Longrightarrow> P st'"
proof (induction n arbitrary: st)
  case 0
  then show ?case by simp
next
  case (Suc n)
  from Suc.prems(1) consider "st' = st"
    | st1 where "st1 \<in> set (f st)" "st' \<in> set (repeat g f n st1)"
    by (cases g) (auto simp: Let_def)
  then show ?case
  proof cases
    case 1
    with Suc.prems show ?thesis by simp
  next
    case 2
    from assms[OF 2(1) Suc.prems(2)] have "P st1" .
    from Suc.IH[OF 2(2) this] show ?thesis .
  qed
qed

lemma run_caps_mono:
  "st' \<in> set (run ci r st) \<Longrightarrow> caps st k \<noteq> None \<Longrightarrow> caps st' k \<noteq> None"
proof (induction r arbitrary: st st')
  case (RChar a)
  then show ?case by (auto split: list.splits if_splits)
next
  case (RSeq r1 r2)
  then show ?case by auto
next
  case (RAlt r1 r2)
  then show ?case by auto
next
  case (RStar g r)
  from RStar.prems(1) have "st' \<in> set (repeat g (run ci r) (length (rest st)) st)" by simp
  from repeat_preserves[of "run ci r" "\<lambda>s. caps s k \<noteq> None", OF RStar.IH this RStar.prems(2)]
  show ?case .
next
  case (RPlus g r)
  from RPlus.prems(1) obtain st1 where 1: "st1 \<in> set (run ci r st)"
    "st' \<in> set (repeat g (run ci r) (length (rest st1)) st1)" by auto
  from RPlus.IH[OF 1(1) RPlus.prems(2)] have "caps st1 k \<noteq> None" .
  from repeat_preserves[of "run ci r" "\<lambda>s. caps s k \<noteq> None", OF RPlus.IH 1(2) this]
  show ?case .
next
  case (ROpt r)
  then show ?case by auto
next
  case (RGroup j r)
  then show ?case by auto
next
  case RBol
  then show ?case by (auto split: if_splits)
next
  case REol
  then show ?case by (auto split: if_splits)
next
  case REmpty
  then show ?case by simp
qed

lemma always_sets_run:
  "always_sets k r \<Longrightarrow> st' \<in> set (run ci r st) \<Longrightarrow> caps st' k \<noteq> None"
proof (induction r arbitrary: st st')
  case (RSeq r1 r2)
  from RSeq.prems(2) obtain st1 where 1: "st1 \<in> set (run ci r1 st)" "st' \<in> set (run ci r2 st1)"
    by auto
  show ?case
  proof (cases "always_sets k r2")
    case True
    from RSeq.IH(2)[OF True 1(2)] show ?thesis .
  next
    case False
    with RSeq.prems(1) have "always_sets k r1" by simp
    from RSeq.IH(1)[OF this 1(1)] have "caps st1 k \<noteq> None" .
    from run_caps_mono[OF 1(2) this] show ?thesis .
  qed
next
  case (RAlt r1 r2)
  then show ?case by auto
next
  case (RPlus g r)
  from RPlus.prems(2) obtain st1 where 1: "st1 \<in> set (run ci r st)"
    "st' \<in> set (repeat g (run ci r) (length (rest st1)) st1)" by auto
  from RPlus.prems(1) have "always_sets k r" by simp
  from RPlus.IH[OF this 1(1)] have "caps st1 k \<noteq> None" .
  from repeat_preserves[of "run ci r" "\<lambda>s. caps s k \<noteq> None", OF run_caps_mono 1(2) this]
  show ?case .
next
  case (RGroup j r)
  then show ?case by auto
qed simp_all

lemma search_SomeD:
  "search ci r i s = Some (j, st) \<Longrightarrow>
     \<exists>k. st \<in> set (run ci r \<lparr>pos = i + k, rest = drop k s, caps = Map.empty\<rparr>)"
proof (induction s arbitrary: i)
  case Nil
  then have "st \<in> set (run ci r \<lparr>pos = i + 0, rest = drop 0 [], caps = Map.empty\<rparr>)"
    by (auto split: list.splits)
  then show ?case by blast
next
  case (Cons c cs)
  show ?case
  proof (cases "run ci r \<lparr>pos = i, rest = c # cs, caps = Map.empty\<rparr>")
    case Nil
    with Cons.prems have "search ci r (Suc i) cs = Some (j, st)" by simp
    from Cons.IH[OF this] obtain k where
      "st \<in> set (run ci r \<lparr>pos = Suc i + k, rest = drop k cs, caps = Map.empty\<rparr>)" by blast
    then have "st \<in> set (run ci r \<lparr>pos = i + Suc k, rest = drop (Suc k) (c # cs), caps = Map.empty\<rparr>)"
      by simp
    then show ?thesis by blast
  next
    case (Cons st1 sts)
    with Cons.prems have "st \<in> set (run ci r \<lparr>pos = i + 0, rest = drop 0 (c # cs), caps = Map.empty\<rparr>)"
      by auto
    then show ?thesis by blast
  qed
qed

lemma exec_always_sets:
  assumes "exec re s = Some m" "always_sets k (pattern re)"
  shows "m k \<noteq> None"
proof -
  from assms(1) obtain i st where s: "search (ignoreCase re) (RGroup 0 (pattern re)) 0 s = Some (i, st)"
    and m: "m = caps st"
    by (auto simp: exec_def split: option.splits)
  from search_SomeD[OF s] obtain j where
    "st \<in> set (run (ignoreCase re) (RGroup 0 (pattern re)) \<lparr>pos = 0 + j, rest = drop j s, caps = Map.empty\<rparr>)"
    by blast
  moreover have "always_sets k (RGroup 0 (pattern re))" using assms(2) by simp
  ultimately have "caps st k \<noteq> None" by (rule always_sets_run[rotated])
  with m show ?thesis by simp
qed

lemma run_measure:
  "st' \<in> set (run ci r st) \<Longrightarrow>
     pos st' + length (rest st') = pos st + length (rest st) \<and> length (rest st') \<le> length (rest st)"
proof (induction r arbitrary: st st')
  case (RChar a)
  then show ?case by (cases "rest st") (auto split: if_splits)
next
  case (RSeq r1 r2)
  from RSeq.prems obtain st1 where 1: "st1 \<in> set (run ci r1 st)" "st' \<in> set (run ci r2 st1)"
    by auto
  from RSeq.IH(1)[OF 1(1)] RSeq.IH(2)[OF 1(2)] show ?case by simp
next
  case (RAlt r1 r2)
  then show ?case by auto
next
  case (RStar g r)
  let ?P = "\<lambda>s. pos s + length (rest s) = pos st + length (rest st) \<and>
                 length (rest s) \<le> length (rest st)"
  have step: "\<And>s s'. s' \<in> set (run ci r s) \<Longrightarrow> ?P s \<Longrightarrow> ?P s'"
    using RStar.IH by fastforce
  from RStar.prems have "st' \<in> set (repeat g (run ci r) (length (rest st)) st)" by simp
  from repeat_preserves[of "run ci r" ?P, OF step this] show ?case by simp
next
  case (RPlus g r)
  let ?P = "\<lambda>s. pos s + length (rest s) = pos st + length (rest st) \<and>
                 length (rest s) \<le> length (rest st)"
  have step: "\<And>s s'. s' \<in> set (run ci r s) \<Longrightarrow> ?P s \<Longrightarrow> ?P s'"
    using RPlus.IH by fastforce
  from RPlus.prems obtain st1 where 1: "st1 \<in> set (run ci r st)"
    "st' \<in> set (repeat g (run ci r) (length (rest st1)) st1)" by auto
  from RPlus.IH[OF 1(1)] have "?P st1" .
  from repeat_preserves[of "run ci r" ?P, OF step 1(2) this] show ?case .
next
  case (ROpt r)
  then show ?case by auto
next
  case (RGroup j r)
  then show ?case by auto
next
  case RBol
  then show ?case by (auto split: if_splits)
next
  case REol
  then show ?case by (auto split: if_splits)
next
  case REmpty
  then show ?case by simp
qed

lemma run_consuming:
  "consuming r \<Longrightarrow> st' \<in> set (run ci r st) \<Longrightarrow> length (rest st') < length (rest st)"
proof (induction r arbitrary: st st')
  case (RChar a)
  then show ?case by (cases "rest st") (auto split: if_splits)
next
  case (RSeq r1 r2)
  from RSeq.prems(2) obtain st1 where 1: "st1 \<in> set (run ci r1 st)" "st' \<in> set (run ci r2 st1)"
    by auto
  from run_measure[OF 1(1)] run_measure[OF 1(2)]
  have le: "length (rest st1) \<le> length (rest st)" "length (rest st') \<le> length (rest st1)"
    by simp_all
  from RSeq.prems(1) consider "consuming r1" | "consuming r2" by auto
  then show ?case
  proof cases
    case 1
    from RSeq.IH(1)[OF this \<open>st1 \<in> set (run ci r1 st)\<close>] le show ?thesis by simp
  next
    case 2
    from RSeq.IH(2)[OF this \<open>st' \<in> set (run ci r2 st1)\<close>] le show ?thesis by simp
  qed
next
  case (RAlt r1 r2)
  then show ?case by auto
next
  case (RPlus g r)
  from RPlus.prems(2) obtain st1 where 1: "st1 \<in> set (run ci r st)"
    "st' \<in> set (repeat g (run ci r) (length (rest st1)) st1)" by auto
  from RPlus.prems(1) have "consuming r" by simp
  from RPlus.IH[OF this 1(1)] have lt: "length (rest st1) < length (rest st)" .
  have step: "\<And>s s'. s' \<in> set (run ci r s) \<Longrightarrow> length (rest s) < length (rest st) \<Longrightarrow>
      length (rest s') < length (rest st)"
    using run_measure by fastforce
  from repeat_preserves[of "run ci r" "\<lambda>s. length (rest s) < length (rest st)", OF step 1(2) lt]
  show ?case .
next
  case (RGroup j r)
  then show ?case by auto
qed simp_all

lemma groups_consume_run:
  "groups_consume k r \<Longrightarrow> st' \<in> set (run ci r st) \<Longrightarrow> caps st k \<noteq> Some [] \<Longrightarrow>
     caps st' k \<noteq> Some []"
proof (induction r arbitrary: st st')
  case (RChar a)
  then show ?case by (auto split: list.splits if_splits)
next
  case (RSeq r1 r2)
  from RSeq.prems(2) obtain st1 where 1: "st1 \<in> set (run ci r1 st)" "st' \<in> set (run ci r2 st1)"
    by auto
  from RSeq.prems(1) have g: "groups_consume k r1" "groups_consume k r2" by simp_all
  from RSeq.IH(1)[OF g(1) 1(1) RSeq.prems(3)] have "caps st1 k \<noteq> Some []" .
  from RSeq.IH(2)[OF g(2) 1(2) this] show ?case .
next
  case (RAlt r1 r2)
  then show ?case by auto
next
  case (RStar g r)
  from RStar.prems(1) have gc: "groups_consume k r" by simp
  from RStar.prems(2) have "st' \<in> set (repeat g (run ci r) (length (rest st)) st)" by simp
  from repeat_preserves[of "run ci r" "\<lambda>s. caps s k \<noteq> Some []", OF RStar.IH[OF gc] this RStar.prems(3)]
  show ?case .
next
  case (RPlus g r)
  from RPlus.prems(1) have gc: "groups_consume k r" by simp
  from RPlus.prems(2) obtain st1 where 1: "st1 \<in> set (run ci r st)"
    "st' \<in> set (repeat g (run ci r) (length (rest st1)) st1)" by auto
  from RPlus.IH[OF gc 1(1) RPlus.prems(3)] have "caps st1 k \<noteq> Some []" .
  from repeat_preserves[of "run ci r" "\<lambda>s. caps s k \<noteq> Some []", OF RPlus.IH[OF gc] 1(2) this]
  show ?case .
next
  case (ROpt r)
  then show ?case by auto
next
  case (RGroup j r)
  from RGroup.prems(2) obtain st1 where 1: "st1 \<in> set (run ci r st)"
    and st': "st' = st1\<lparr>caps := (caps st1)(j \<mapsto> take (pos st1 - pos st) (rest st))\<rparr>"
    by auto
  from RGroup.prems(1) have gc: "groups_consume k r" by simp
  from RGroup.IH[OF gc 1 RGroup.prems(3)] have c1: "caps st1 k \<noteq> Some []" .
  show ?case
  proof (cases "j = k")
    case False
    with st' c1 show ?thesis by simp
  next
    case True
    with RGroup.prems(1) have "consuming r" by simp
    from run_consuming[OF this 1] have lt: "length (rest st1) < length (rest st)" .
    with run_measure[OF 1] have "0 < pos st1 - pos st" by simp
    moreover from lt have "rest st \<noteq> []" by auto
    ultimately have "take (pos st1 - pos st) (rest st) \<noteq> []" by simp
    with st' True show ?thesis by simp
  qed
next
  case RBol
  then show ?case by (auto split: if_splits)
next
  case REol
  then show ?case by (auto split: if_splits)
next
  case REmpty
  then show ?case by simp
qed

lemma exec_groups_consume:
  assumes "exec re s = Some m" "groups_consume k (pattern re)" "0 < k"
  shows "m k \<noteq> Some []"
proof -
  from assms(1) obtain i st where s: "search (ignoreCase re) (RGroup 0 (pattern re)) 0 s = Some (i, st)"
    and m: "m = caps st"
    by (auto simp: exec_def split: option.splits)
  from search_SomeD[OF s] obtain j where
    r: "st \<in> set (run (ignoreCase re) (RGroup 0 (pattern re)) \<lparr>pos = 0 + j, rest = drop j s, caps = Map.empty\<rparr>)"
    by blast
  have "groups_consume k (RGroup 0 (pattern re))" using assms(2,3) by simp
  from groups_consume_run[OF this r] have "caps st k \<noteq> Some []" by simp
  with m show ?thesis by simp
qed

lemma groups_consume_lit [simp]: "groups_consume k (lit w)"
  by (induction w rule: lit.induct) simp_all

lemma aggregate_re_alias: "groups_consume 2 (pattern (aggregate_re name))"
  by (simp add: aggregate_re_def alias_opt_def spaces1_def word1_def tick_opt_def del: lit.simps)

lemma count_re_alias: "groups_consume 2 (pattern count_re)"
  by (simp add: count_re_def alias_opt_def spaces1_def word1_def tick_opt_def del: lit.simps)

lemma aggregate_re_column: "always_sets 1 (pattern (aggregate_re name))"
  by (simp add: aggregate_re_def word1_def del: lit.simps)

lemma alias_or_result_key:
  "m 2 \<noteq> Some [] \<Longrightarrow> alias_or m dflt = result_key m dflt"
  by (auto simp: alias_or_def result_key_def split: option.splits)

lemma aggregate_alias:
  "exec (aggregate_re name) q = Some m \<Longrightarrow> alias_or m dflt = result_key m dflt"
  using exec_groups_consume[OF _ aggregate_re_alias, of name q m] by (simp add: alias_or_result_key)

lemma count_alias:
  "exec count_re q = Some m \<Longrightarrow> alias_or m dflt = result_key m dflt"
  using exec_groups_consume[OF _ count_re_alias, of q m] by (simp add: alias_or_result_key)

lemma aggregate_column:
  "exec (aggregate_re name) q = Some m \<Longrightarrow> \<exists>col. m 1 = Some col \<and> capture m 1 = col"
  using exec_always_sets[OF _ aggregate_re_column, of name q m] by (auto simp: capture_def)

lemma where_re_sets: "always_sets 1 (pattern where_re)"
  by (simp add: where_re_def)

subsection \<open>The steps of the interpreter\<close>

lemma filter_rows_total:
  assumes "\<And>r. \<exists>b. p r = Inr b"
  shows "filter_rows p rs = Inr (filter (\<lambda>r. p r = Inr True) rs)"
proof (induction rs)
  case Nil
  show ?case by simp
next
  case (Cons r rs)
  from assms[of r] obtain b where "p r = Inr b" by blast
  with Cons show ?case by (cases b) auto
qed

lemma where_step_total:
  "\<exists>filtered. where_step numstr rs q = Inr filtered \<and> set filtered \<subseteq> set rs"
proof (cases "js_includes (toLowerCase q) ''where''")
  case False
  then show ?thesis by (simp add: where_step_def)
next
  case True
  show ?thesis
  proof (cases "exec where_re q")
    case None
    with True show ?thesis by (simp add: where_step_def)
  next
    case (Some m)
    from exec_always_sets[OF Some where_re_sets] obtain c where c: "m 1 = Some c" by auto
    have "filter_rows (\<lambda>r. evaluateCondition numstr r (trim c)) rs
        = Inr (filter (\<lambda>r. evaluateCondition numstr r (trim c) = Inr True) rs)"
      by (rule filter_rows_total) (rule evaluateCondition_total)
    with True Some c show ?thesis by (simp add: where_step_def)
  qed
qed

lemma length_insert_by: "length (insert_by cmp x ys) = Suc (length ys)"
  by (induction ys) auto

lemma length_array_sort: "length (array_sort cmp xs) = length xs"
proof -
  have "\<And>acc. length (foldl (\<lambda>sorted x. insert_by cmp x sorted) acc xs) = length acc + length xs"
    by (induction xs) (simp_all add: length_insert_by)
  then show ?thesis by (simp add: array_sort_def)
qed

lemma length_order_step: "length (order_step rs q) = length rs"
  by (simp add: order_step_def Let_def length_array_sort split: option.splits)

subsection \<open>Aggregate patterns and aggregate tokens\<close>

lemma ci_prefix_append_char:
  "ci_prefix w s \<Longrightarrow> drop (length w) s = c # t \<Longrightarrow> toLowerCase_char c = toLowerCase_char p \<Longrightarrow>
     ci_prefix (w @ [p]) s"
proof -
  assume a: "ci_prefix w s" "drop (length w) s = c # t" "toLowerCase_char c = toLowerCase_char p"
  have "s = take (length w) s @ c # t" using a(2) by (metis append_take_drop_id)
  then have "take (Suc (length w)) s = take (length w) s @ [c]"
    by (metis a(2) append_take_drop_id drop_all leI list.distinct(1) take_Suc_conv_app_nth
        nth_via_drop)
  moreover have "Suc (length w) \<le> length s"
    using a(2) by (metis Suc_leI drop_all leI list.distinct(1))
  ultimately show ?thesis using a(1,3) by (simp add: ci_prefix_def toLowerCase_def)
qed

lemma ci_prefix_includes:
  "toLowerCase w = w \<Longrightarrow> ci_prefix w (drop k s) \<Longrightarrow> k \<le> length s \<Longrightarrow>
     js_includes (toLowerCase s) w"
  by (auto simp: includes_lower_iff)

lemma run_name_paren:
  assumes "run True (RSeq (lit name) (RSeq (RChar (Lit (CHR ''(''))) r)) st \<noteq> []"
  shows "ci_prefix (name @ ''('') (rest st)"
proof -
  from assms obtain st1 where 1: "st1 \<in> set (run True (lit name) st)"
    "run True (RSeq (RChar (Lit (CHR ''(''))) r) st1 \<noteq> []"
    unfolding run_seq_empty[of True "lit name"] by blast
  from 1(1) have p: "ci_prefix name (rest st)" and st1: "st1 = adv (length name) st"
    by (auto simp: run_lit split: if_splits)
  from 1(2) obtain st2 where "st2 \<in> set (run True (RChar (Lit (CHR ''(''))) st1)"
    unfolding run_seq_empty[of True "RChar (Lit (CHR ''(''))"] by blast
  then obtain c t where c: "rest st1 = c # t" "cmatch True (Lit (CHR ''('')) c"
    by (cases "rest st1") (auto split: if_splits)
  from c(1) have d: "drop (length name) (rest st) = c # t" by (simp add: st1)
  from c(2) have "toLowerCase_char c = toLowerCase_char (CHR ''('')"
    by (simp add: fold_equiv)
  from ci_prefix_append_char[OF p d this] show ?thesis .
qed

lemma aggregate_re_token:
  assumes "exec (aggregate_re name) q \<noteq> None" "toLowerCase (name @ ''('') = w"
  shows "js_includes (toLowerCase q) w"
proof -
  have pat: "pattern (aggregate_re name) =
      RSeq (lit name) (RSeq (RChar (Lit (CHR ''(''))) 
        (seqs [tick_opt, RGroup 1 word1, tick_opt, RChar (Lit (CHR '')'')), alias_opt]))"
    and ic: "ignoreCase (aggregate_re name) = True"
    by (simp_all add: aggregate_re_def)
  from assms(1)[unfolded exec_iff ic pat] obtain k where k: "k \<le> length q"
    "run True (RSeq (lit name) (RSeq (RChar (Lit (CHR ''(''))) 
        (seqs [tick_opt, RGroup 1 word1, tick_opt, RChar (Lit (CHR '')'')), alias_opt])))
       \<lparr>pos = k, rest = drop k q, caps = Map.empty\<rparr> \<noteq> []"
    by blast
  from run_name_paren[OF k(2)] have "ci_prefix (name @ ''('') (drop k q)" by simp
  then have cp: "ci_prefix (name @ ''('') (drop k q)" .
  have "toLowerCase_char (toLowerCase_char c) = toLowerCase_char c" for c
    by (cases c) (auto simp: toLowerCase_char_def)
  then have idem: "toLowerCase w = w"
    using assms(2) by (auto simp: toLowerCase_def)
  with assms(2) have "toLowerCase (name @ ''('') = toLowerCase w" by simp
  from ci_prefix_cong[OF this] cp have cw: "ci_prefix w (drop k q)" by simp
  from ci_prefix_includes[OF idem cw k(1)] show ?thesis .
qed


lemma count_re_token:
  assumes "exec count_re q \<noteq> None"
  shows "js_includes (toLowerCase q) ''count(''"
proof -
  have pat: "pattern count_re =
      RSeq (lit ''COUNT'') (RSeq (RChar (Lit (CHR ''('')))
        (seqs [RGroup 1 (RAlt (RChar (Lit (CHR ''*''))) (seqs [tick_opt, word1, tick_opt])),
               RChar (Lit (CHR '')'')), alias_opt]))"
    and ic: "ignoreCase count_re = True"
    by (simp_all add: count_re_def)
  from assms[unfolded exec_iff ic pat] obtain k where k: "k \<le> length q"
    "run True (RSeq (lit ''COUNT'') (RSeq (RChar (Lit (CHR ''('')))
        (seqs [RGroup 1 (RAlt (RChar (Lit (CHR ''*''))) (seqs [tick_opt, word1, tick_opt])),
               RChar (Lit (CHR '')'')), alias_opt])))
       \<lparr>pos = k, rest = drop k q, caps = Map.empty\<rparr> \<noteq> []"
    by blast
  from run_name_paren[OF k(2)] have cp: "ci_prefix (''COUNT'' @ ''('') (drop k q)" by simp
  have low: "toLowerCase (''COUNT'' @ ''('') = toLowerCase ''count(''" "toLowerCase ''count('' = ''count(''"
    by code_simp+
  from ci_prefix_cong[OF low(1)] cp have "ci_prefix ''count('' (drop k q)" by simp
  from ci_prefix_includes[OF low(2) this k(1)] show ?thesis .
qed

lemma aggregate_matches_token: "aggregate_matches q \<Longrightarrow> has_aggregate q"
proof -
  have low: "toLowerCase (''SUM'' @ ''('') = ''sum(''" "toLowerCase (''AVG'' @ ''('') = ''avg(''"
    "toLowerCase (''MAX'' @ ''('') = ''max(''" "toLowerCase (''MIN'' @ ''('') = ''min(''"
    by code_simp+
  assume "aggregate_matches q"
  then show ?thesis
    unfolding aggregate_matches_def has_aggregate_def Let_def
    using aggregate_re_token[OF _ low(1), of q] aggregate_re_token[OF _ low(2), of q]
      aggregate_re_token[OF _ low(3), of q] aggregate_re_token[OF _ low(4), of q]
      count_re_token[of q]
    by blast
qed

subsection \<open>The interpreter on aggregate queries\<close>

lemma calculateAggregation_limit:
  "(ma < length results) = (mb < length results) \<Longrightarrow>
     calculateAggregation ma results q = calculateAggregation mb results q"
  unfolding calculateAggregation_def Math_max_def Math_min_def
  by (auto simp: Let_def split: option.splits)

lemma calculateAggregation_short:
  "length results \<le> ma \<Longrightarrow> \<exists>res. calculateAggregation ma results q = Inr res"
proof (cases "calculateAggregation ma results q")
  case (Inl e)
  from calculateAggregation_error[OF this] have "ma < length results" by simp
  moreover assume "length results \<le> ma"
  ultimately show ?thesis by simp
next
  case (Inr res)
  then show ?thesis by simp
qed

lemma executeSQL_aggregate:
  "has_aggregate q \<Longrightarrow> exec from_re q \<noteq> None \<Longrightarrow> where_step numstr rs q = Inr filtered \<Longrightarrow>
     executeSQL numstr ma rs q = calculateAggregation ma (order_step filtered q) q"
  by (auto simp: executeSQL_def Let_def)

lemma executeSQL_no_from:
  "exec from_re q = None \<Longrightarrow>
     executeSQL numstr ma rs q = Inl (ExecutionError ''Invalid SQL: Missing FROM clause'')"
  by (simp add: executeSQL_def)

lemma where_step_no_where:
  "\<not> js_includes (toLowerCase q) ''where'' \<Longrightarrow> where_step numstr rs q = Inr rs"
  by (simp add: where_step_def)

section \<open>The claims\<close>

subsection \<open>The two copies of the scanner\<close>

text \<open>
  C9. The pattern table of the client and that of the server are the same table, and on every
  text the scan of the client and the scan of the server return the same threats, in the same
  order; so they return the same set of threat kinds.
\<close>

theorem scan_client_server_agree:
  "client_suspiciousPatterns = server_suspiciousPatterns \<and>
   client_detectPromptInjection query = server_detectPromptInjection query"
  by (simp add: client_detectPromptInjection_def server_detectPromptInjection_def
      client_suspiciousPatterns_def server_suspiciousPatterns_def)

subsection \<open>Words that hold exec, eval or script\<close>

text \<open>
  C10. When the lower-cased text holds \<^verbatim>\<open>exec\<close>, \<^verbatim>\<open>eval\<close> or \<^verbatim>\<open>script\<close> anywhere, also inside a
  word, the scan of the server and that of the client both report the Code Execution kind, so
  the threat set is not empty; and the handler answers a request with that question by the
  security violation, whatever the language model would have returned: the call of the model
  is never reached.
\<close>

theorem code_execution_words_rejected:
  assumes "js_includes (toLowerCase text) ''exec'' \<or> js_includes (toLowerCase text) ''eval''
           \<or> js_includes (toLowerCase text) ''script''"
  shows "''Code Execution Attempt'' \<in> set (server_detectPromptInjection text) \<and>
         ''Code Execution Attempt'' \<in> set (client_detectPromptInjection text) \<and>
         (question req = text \<longrightarrow>
            generate_sql numstr llm req = Inl (SecurityViolation (server_detectPromptInjection text)))"
proof -
  have t: "test code_execution_re text"
    using assms by (simp add: test_code_execution)
  have s: "''Code Execution Attempt'' \<in> set (server_detectPromptInjection text)"
    unfolding server_detectPromptInjection_def
    using t code_execution_in_server by force
  have c: "''Code Execution Attempt'' \<in> set (client_detectPromptInjection text)"
    unfolding client_detectPromptInjection_def
    using t code_execution_in_client by force
  have ne: "text \<noteq> []"
    using assms by (auto simp: toLowerCase_def)
  from s have "length (server_detectPromptInjection text) > 0"
    by (cases "server_detectPromptInjection text") auto
  with ne have "question req = text \<longrightarrow>
      generate_sql numstr llm req = Inl (SecurityViolation (server_detectPromptInjection text))"
    by (simp add: generate_sql_def Let_def)
  with s c show ?thesis by blast
qed

theorem code_execution_words_rejected_witness:
  "js_includes (toLowerCase ''Show the Description column'') ''script'' \<and>
   server_detectPromptInjection ''Show the Description column'' = [''Code Execution Attempt''] \<and>
   client_detectPromptInjection ''Show the Description column'' = [''Code Execution Attempt''] \<and>
   generate_sql integer_numstr (\<lambda>req relevant. None)
     \<lparr>question = ''Show the Description column'', schema = None, sampleData = None,
      tableName = None, vectorStore = None\<rparr>
     = Inl (SecurityViolation [''Code Execution Attempt''])"
proof -
  have h: "js_includes (toLowerCase ''Show the Description column'') ''script''"
    by code_simp
  have v: "server_detectPromptInjection ''Show the Description column'' = [''Code Execution Attempt'']"
    by code_simp
  have c: "client_detectPromptInjection ''Show the Description column'' = [''Code Execution Attempt'']"
    by code_simp
  from code_execution_words_rejected[of "''Show the Description column''"
      "\<lparr>question = ''Show the Description column'', schema = None, sampleData = None,
      tableName = None, vectorStore = None\<rparr>" integer_numstr "\<lambda>req relevant. None"] h
  show ?thesis unfolding v c by simp
qed

subsection \<open>The grammar check on SELECT\<close>

text \<open>
  C7, as the code has it. \<open>validateSQLGrammar\<close> reports \<^verbatim>\<open>Query must start with SELECT\<close> exactly
  when the text itself, which is not trimmed, does not begin with the six letters of SELECT in
  either case followed by a white-space character. On the text \<^verbatim>\<open>SELECT * \<close>, which has no FROM,
  it returns the single error \<^verbatim>\<open>Missing FROM clause\<close>. The claim as written fails on
  \<^verbatim>\<open>SELECT* FROM data\<close> and on \<^verbatim>\<open> SELECT * FROM data\<close> with its blank in front: the trimmed text
  of each starts with SELECT, and each is reported all the same.
\<close>

theorem validate_select_start:
  "(''Query must start with SELECT'' \<in> set (validateSQLGrammar sql)) =
     (\<not> (\<exists>w c t. sql = w @ c # t \<and> toLowerCase w = ''select'' \<and> is_space c)) \<and>
   validateSQLGrammar ''SELECT * '' = [''Missing FROM clause'']"
proof -
  have a: "(''Query must start with SELECT'' \<in> set (validateSQLGrammar sql)) =
        (exec select_start_re sql = None)"
    by (simp add: validateSQLGrammar_def)
  have "(''Query must start with SELECT'' \<in> set (validateSQLGrammar sql)) =
     (\<not> (\<exists>w c t. sql = w @ c # t \<and> toLowerCase w = ''select'' \<and> is_space c))"
    unfolding a select_start_iff[symmetric] by simp
  moreover have "validateSQLGrammar ''SELECT * '' = [''Missing FROM clause'']"
    by code_simp
  ultimately show ?thesis by (rule conjI)
qed

theorem validate_select_start_witness:
  "(\<exists>w c t. ''select * from t'' = w @ c # t \<and> toLowerCase w = ''select'' \<and> is_space c) \<and>
   ''Query must start with SELECT'' \<notin> set (validateSQLGrammar ''select * from t'')"
proof -
  have "''select * from t'' = ''select'' @ CHR '' '' # ''* from t'' \<and>
        toLowerCase ''select'' = ''select'' \<and> is_space (CHR '' '')"
    by code_simp
  then have ex: "\<exists>w c t. ''select * from t'' = w @ c # t \<and> toLowerCase w = ''select'' \<and> is_space c"
    by blast
  with validate_select_start[of "''select * from t''"] show ?thesis by blast
qed

theorem validate_select_start_counterexample:
  "spec_starts_with_select ''SELECT* FROM data'' \<and>
   validateSQLGrammar ''SELECT* FROM data'' = [''Query must start with SELECT''] \<and>
   spec_starts_with_select '' SELECT * FROM data'' \<and>
   validateSQLGrammar '' SELECT * FROM data'' = [''Query must start with SELECT'']"
  by code_simp

subsection \<open>The grammar check on dangerous operations\<close>

text \<open>
  C8, as the code has it. \<open>validateSQLGrammar\<close> reports \<^verbatim>\<open>Dangerous SQL operation detected\<close>
  exactly when some WHERE (in either case) is followed by DROP, DELETE, INSERT, UPDATE, CREATE
  or ALTER (in either case) with no line terminator between the two: the dot of the pattern
  does not pass a line feed or a carriage return. The claim as written fails on a text whose
  DROP stands behind a carriage return: the text after WHERE holds it and nothing is reported.
\<close>

theorem validate_dangerous:
  "(''Dangerous SQL operation detected'' \<in> set (validateSQLGrammar sql)) =
     (\<exists>pre w mid kw post. sql = pre @ w @ mid @ kw @ post \<and> toLowerCase w = ''where'' \<and>
        toLowerCase kw \<in> set dangerous_keywords \<and> (\<forall>c \<in> set mid. \<not> is_line_terminator c))"
proof -
  have a: "(''Dangerous SQL operation detected'' \<in> set (validateSQLGrammar sql)) =
        (exec dangerous_re sql \<noteq> None)"
    by (simp add: validateSQLGrammar_def)
  show ?thesis
    unfolding a by (rule dangerous_iff)
qed

theorem validate_dangerous_witness:
  "filter is_line_terminator '' x = 1; '' = [] \<and>
   validateSQLGrammar ''SELECT * FROM t WHERE x = 1; DROP TABLE t''
     = [''Dangerous SQL operation detected'']"
proof -
  have mid: "\<forall>c \<in> set '' x = 1; ''. \<not> is_line_terminator c"
    by code_simp
  have "''SELECT * FROM t WHERE x = 1; DROP TABLE t''
          = ''SELECT * FROM t '' @ ''WHERE'' @ '' x = 1; '' @ ''DROP'' @ '' TABLE t'' \<and>
        toLowerCase ''WHERE'' = ''where'' \<and> toLowerCase ''DROP'' \<in> set dangerous_keywords"
    by code_simp
  with mid have "\<exists>pre w mid kw post.
      ''SELECT * FROM t WHERE x = 1; DROP TABLE t'' = pre @ w @ mid @ kw @ post \<and>
      toLowerCase w = ''where'' \<and> toLowerCase kw \<in> set dangerous_keywords \<and>
      (\<forall>c \<in> set mid. \<not> is_line_terminator c)"
    by blast
  with validate_dangerous[of "''SELECT * FROM t WHERE x = 1; DROP TABLE t''"]
  have "''Dangerous SQL operation detected''
          \<in> set (validateSQLGrammar ''SELECT * FROM t WHERE x = 1; DROP TABLE t'')"
    by blast
  moreover have "validateSQLGrammar ''SELECT * FROM t WHERE x = 1; DROP TABLE t''
      = [''Dangerous SQL operation detected'']"
    by code_simp
  moreover have "filter is_line_terminator '' x = 1; '' = []"
    by code_simp
  ultimately show ?thesis by blast
qed

theorem validate_dangerous_counterexample:
  "spec_dangerous (''SELECT * FROM t WHERE a = 1'' @ [CHR 0x0D] @ ''DROP TABLE t'') \<and>
   validateSQLGrammar (''SELECT * FROM t WHERE a = 1'' @ [CHR 0x0D] @ ''DROP TABLE t'') = []"
  by code_simp

subsection \<open>The relevant columns\<close>

text \<open>
  C3, as the code has it. The handler keeps an entry of the vector store, in the order of the
  store, exactly when the lower-cased question contains the lower-cased column name or
  contains the lower-cased string of one of the stored distinct values of the entry; every
  stored value is examined (the first five are only what the prompt prints). Without a
  vector store nothing is relevant. The claim as written fails on an entry whose sixth
  distinct value is the only one the question mentions: the handler keeps it.
\<close>

theorem relevant_checks_every_value:
  "relevantColumns numstr q (Some entries) =
     filter (\<lambda>v. js_includes (toLowerCase q) (toLowerCase (column v)) \<or>
                 (\<exists>m vals. metadata v = Some m \<and> distinctValues m = Some vals \<and>
                    (\<exists>val \<in> set vals.
                        js_includes (toLowerCase q) (toLowerCase (ToString numstr val)))))
       entries \<and>
   relevantColumns numstr q None = []"
proof -
  have "\<And>v. mentions_value numstr q v =
      (\<exists>m vals. metadata v = Some m \<and> distinctValues m = Some vals \<and>
         (\<exists>val \<in> set vals. js_includes (toLowerCase q) (toLowerCase (ToString numstr val))))"
    by (auto simp: mentions_value_def list_ex_iff split: option.splits)
  then show ?thesis
    by (simp add: relevantColumns_def)
qed

theorem relevant_checks_every_value_witness:
  "filter (\<lambda>v. js_includes (toLowerCase ''rank of Nepal'') (toLowerCase (column v)) \<or>
                 (\<exists>m vals. metadata v = Some m \<and> distinctValues m = Some vals \<and>
                    (\<exists>val \<in> set vals.
                        js_includes (toLowerCase ''rank of Nepal'')
                          (toLowerCase (ToString integer_numstr val)))))
     [\<lparr>column = ''Country'', col_type = ''TEXT'', context_text = ''Column: Country'',
        metadata = Some \<lparr>distinctValues = Some [JStr ''India'', JStr ''Nepal''],
                          sampleCount = 2\<rparr>\<rparr>,
      \<lparr>column = ''Year'', col_type = ''NUMBER'', context_text = ''Column: Year'',
        metadata = Some \<lparr>distinctValues = Some [JNum (Fin 2023), JNum (Fin 2024)],
                          sampleCount = 2\<rparr>\<rparr>]
   = [\<lparr>column = ''Country'', col_type = ''TEXT'', context_text = ''Column: Country'',
        metadata = Some \<lparr>distinctValues = Some [JStr ''India'', JStr ''Nepal''],
                          sampleCount = 2\<rparr>\<rparr>]"
proof -
  let ?es = "[\<lparr>column = ''Country'', col_type = ''TEXT'', context_text = ''Column: Country'',
        metadata = Some \<lparr>distinctValues = Some [JStr ''India'', JStr ''Nepal''],
                          sampleCount = 2\<rparr>\<rparr>,
      \<lparr>column = ''Year'', col_type = ''NUMBER'', context_text = ''Column: Year'',
        metadata = Some \<lparr>distinctValues = Some [JNum (Fin 2023), JNum (Fin 2024)],
                          sampleCount = 2\<rparr>\<rparr>]"
  have ev: "relevantColumns integer_numstr ''rank of Nepal'' (Some ?es) = [hd ?es]"
    by code_simp
  from relevant_checks_every_value[of integer_numstr "''rank of Nepal''" ?es]
  have "relevantColumns integer_numstr ''rank of Nepal'' (Some ?es) =
     filter (\<lambda>v. js_includes (toLowerCase ''rank of Nepal'') (toLowerCase (column v)) \<or>
                 (\<exists>m vals. metadata v = Some m \<and> distinctValues m = Some vals \<and>
                    (\<exists>val \<in> set vals.
                        js_includes (toLowerCase ''rank of Nepal'')
                          (toLowerCase (ToString integer_numstr val))))) ?es"
    by (rule conjunct1)
  from trans[OF this[symmetric] ev] show ?thesis
    by (simp only: list.sel)
qed

theorem relevant_first_five_counterexample:
  "relevantColumns integer_numstr ''rank of Nepal''
     (Some [\<lparr>column = ''Country'', col_type = ''TEXT'', context_text = ''Column: Country'',
              metadata = Some \<lparr>distinctValues = Some [JStr ''India'', JStr ''China'', JStr ''Japan'',
                                   JStr ''Bhutan'', JStr ''Peru'', JStr ''Nepal''],
                                sampleCount = 6\<rparr>\<rparr>])
   = [\<lparr>column = ''Country'', col_type = ''TEXT'', context_text = ''Column: Country'',
        metadata = Some \<lparr>distinctValues = Some [JStr ''India'', JStr ''China'', JStr ''Japan'',
                             JStr ''Bhutan'', JStr ''Peru'', JStr ''Nepal''],
                          sampleCount = 6\<rparr>\<rparr>] \<and>
   \<not> spec_relevant integer_numstr ''rank of Nepal''
     \<lparr>column = ''Country'', col_type = ''TEXT'', context_text = ''Column: Country'',
       metadata = Some \<lparr>distinctValues = Some [JStr ''India'', JStr ''China'', JStr ''Japan'',
                            JStr ''Bhutan'', JStr ''Peru'', JStr ''Nepal''],
                         sampleCount = 6\<rparr>\<rparr>"
  by code_simp

subsection \<open>The operands of a condition\<close>

text \<open>
  C4, as the code has it. Let \<open>op\<close> be the first operator, in the order \<^verbatim>\<open>>= <= != <> = > <\<close>,
  that occurs in the condition. The condition is split at every occurrence of \<open>op\<close>; the left
  operand is the trimmed text before the first occurrence, and the right operand is the
  trimmed text between the first occurrence and the second one, or up to the end when there
  is no second one. From the right operand every single and double quote is removed, wherever
  it stands, and no other character. The result of the evaluator is the comparison of the
  \<^verbatim>\<open>switch\<close> on these operands. The claim as written fails on \<^verbatim>\<open>x = a = b\<close>, whose right
  operand is \<^verbatim>\<open>a\<close> and not \<^verbatim>\<open>a = b\<close>, and on \<^verbatim>\<open>name = 'O'Neil'\<close>, whose inner quote is removed
  too.
\<close>

theorem condition_operands:
  assumes "matched_operator condition = Some op"
  shows "\<exists>l after b.
           find_sep op condition = Some (l, after) \<and>
           operands condition op = Some (trim l, trim (second_piece op after)) \<and>
           switch_op numstr op (leftVal r (trim l))
             (strip_quotes (trim (second_piece op after))) = Some b \<and>
           evaluateCondition numstr r condition = Inr b \<and>
           strip_quotes (trim (second_piece op after))
             = filter (\<lambda>c. \<not> is_quote c) (trim (second_piece op after))"
proof -
  from evaluateCondition_matched[OF assms, of numstr r]
  obtain l after b where
    "find_sep op condition = Some (l, after)"
    "operands condition op = Some (trim l, trim (second_piece op after))"
    "switch_op numstr op (leftVal r (trim l)) (strip_quotes (trim (second_piece op after))) = Some b"
    "evaluateCondition numstr r condition = Inr b"
    by blast
  moreover have "strip_quotes (trim (second_piece op after))
      = filter (\<lambda>c. \<not> is_quote c) (trim (second_piece op after))"
    by (simp add: strip_quotes_def remove_all_def is_quote_def)
  ultimately show ?thesis by blast
qed

theorem condition_operands_witness:
  "matched_operator ''x = a = b'' = Some ''='' \<and>
   find_sep ''='' ''x = a = b'' = Some (''x '', '' a = b'') \<and>
   second_piece ''='' '' a = b'' = '' a '' \<and>
   operands ''x = a = b'' ''='' = Some (''x'', ''a'') \<and>
   evaluateCondition integer_numstr [(''x'', JStr ''a'')] ''x = a = b'' = Inr True"
proof -
  have m: "matched_operator ''x = a = b'' = Some ''=''"
    by code_simp
  have f: "find_sep ''='' ''x = a = b'' = Some (''x '', '' a = b'')"
    and s: "second_piece ''='' '' a = b'' = '' a ''"
    and t: "trim ''x '' = ''x''" "trim '' a '' = ''a''"
    and sw: "switch_op integer_numstr ''='' (leftVal [(''x'', JStr ''a'')] ''x'') (strip_quotes ''a'')
              = Some True"
    by code_simp+
  from condition_operands[OF m, of integer_numstr "[(''x'', JStr ''a'')]"] f s t sw
  have "operands ''x = a = b'' ''='' = Some (''x'', ''a'') \<and>
        evaluateCondition integer_numstr [(''x'', JStr ''a'')] ''x = a = b'' = Inr True"
    by auto
  with m f s show ?thesis by blast
qed

theorem condition_operands_counterexample:
  "matched_operator ''x = a = b'' = Some ''='' \<and>
   operands ''x = a = b'' ''='' = Some (''x'', ''a'') \<and>
   spec_operands ''x = a = b'' ''='' = Some (''x'', ''a = b'') \<and>
   evaluateCondition integer_numstr [(''x'', JStr ''a'')] ''x = a = b'' = Inr True \<and>
   operands (''name = '' @ [CHR 0x27] @ ''O'' @ [CHR 0x27] @ ''Neil'' @ [CHR 0x27]) ''=''
     = Some (''name'', [CHR 0x27] @ ''O'' @ [CHR 0x27] @ ''Neil'' @ [CHR 0x27]) \<and>
   strip_quotes ([CHR 0x27] @ ''O'' @ [CHR 0x27] @ ''Neil'' @ [CHR 0x27]) = ''ONeil'' \<and>
   spec_strip_surrounding_quotes ([CHR 0x27] @ ''O'' @ [CHR 0x27] @ ''Neil'' @ [CHR 0x27])
     = ''O'' @ [CHR 0x27] @ ''Neil'' \<and>
   evaluateCondition integer_numstr [(''name'', JStr (''O'' @ [CHR 0x27] @ ''Neil''))]
     (''name = '' @ [CHR 0x27] @ ''O'' @ [CHR 0x27] @ ''Neil'' @ [CHR 0x27]) = Inr False"
  by code_simp

subsection \<open>Comparisons with not-a-number, conditions without operator\<close>

text \<open>
  C5. When the operator the evaluator stops at is \<^verbatim>\<open>>\<close>, \<^verbatim>\<open><\<close>, \<^verbatim>\<open>>=\<close> or \<^verbatim>\<open><=\<close> and the number
  of the left value or the number of the right value is not-a-number, the condition is
  false; when no operator of the list occurs in the condition, it is true; and the evaluator
  returns a truth value on every row and condition, never an error.
\<close>

theorem condition_nan_and_no_operator:
  "(matched_operator condition = Some op \<and> op \<in> set [''>'', ''<'', ''>='', ''<='']
      \<and> operands condition op = Some (left, right)
      \<and> (ToNumber (leftVal r left) = NaN \<or> ToNumber (JStr (strip_quotes right)) = NaN)
      \<longrightarrow> evaluateCondition numstr r condition = Inr False) \<and>
   ((\<forall>op \<in> set operators. \<not> js_includes condition op)
      \<longrightarrow> evaluateCondition numstr r condition = Inr True) \<and>
   (\<exists>b. evaluateCondition numstr r condition = Inr b)"
proof (intro conjI impI)
  assume a: "matched_operator condition = Some op \<and> op \<in> set [''>'', ''<'', ''>='', ''<='']
      \<and> operands condition op = Some (left, right)
      \<and> (ToNumber (leftVal r left) = NaN \<or> ToNumber (JStr (strip_quotes right)) = NaN)"
  then have "switch_op numstr op (leftVal r left) (strip_quotes right) = Some False"
    by (auto simp: switch_op_def num_gt_def num_ge_def num_le_def)
  with a show "evaluateCondition numstr r condition = Inr False"
    unfolding evaluateCondition_def matched_operator_def
    by (intro eval_ops_matched[where op = op and left = left and right = right]) auto
next
  assume "\<forall>op \<in> set operators. \<not> js_includes condition op"
  then have "find (\<lambda>op. js_includes condition op) operators = None"
    by (simp add: find_None_iff)
  from eval_ops_unmatched[OF this] show "evaluateCondition numstr r condition = Inr True"
    by (simp add: evaluateCondition_def)
next
  show "\<exists>b. evaluateCondition numstr r condition = Inr b"
    by (rule evaluateCondition_total)
qed

theorem condition_nan_and_no_operator_witness:
  "matched_operator ''Rank > abc'' = Some ''>'' \<and>
   operands ''Rank > abc'' ''>'' = Some (''Rank'', ''abc'') \<and>
   ToNumber (JStr (strip_quotes ''abc'')) = NaN \<and>
   evaluateCondition integer_numstr [(''Rank'', JNum (Fin 5))] ''Rank > abc'' = Inr False \<and>
   matched_operator ''Rank'' = None \<and>
   evaluateCondition integer_numstr [(''Rank'', JNum (Fin 5))] ''Rank'' = Inr True"
proof -
  have h: "matched_operator ''Rank > abc'' = Some ''>''"
    "''>'' \<in> set [''>'', ''<'', ''>='', ''<='']"
    "operands ''Rank > abc'' ''>'' = Some (''Rank'', ''abc'')"
    "ToNumber (JStr (strip_quotes ''abc'')) = NaN"
    by code_simp+
  have n: "\<forall>op \<in> set operators. \<not> js_includes ''Rank'' op"
    by code_simp
  from condition_nan_and_no_operator[of "''Rank > abc''" "''>''" "''Rank''" "''abc''"
      "[(''Rank'', JNum (Fin 5))]" integer_numstr] h
  have 1: "evaluateCondition integer_numstr [(''Rank'', JNum (Fin 5))] ''Rank > abc'' = Inr False"
    by blast
  from condition_nan_and_no_operator[of "''Rank''" "''>''" "''Rank''" "''abc''"
      "[(''Rank'', JNum (Fin 5))]" integer_numstr] n
  have 2: "evaluateCondition integer_numstr [(''Rank'', JNum (Fin 5))] ''Rank'' = Inr True"
    by blast
  have m: "matched_operator ''Rank'' = None"
    by code_simp
  from h m 1 2 show ?thesis by blast
qed

subsection \<open>The shape of an aggregate result\<close>

text \<open>
  C2, as the code has it. \<open>calculateAggregation\<close> tries its five patterns in the order SUM,
  COUNT, AVG, MAX, MIN and answers for the first that matches the query text (such a text
  holds an aggregate token, so the interpreter does call the function on it). For SUM, COUNT
  and AVG the output is, on every row list, exactly one row with exactly one key and a number
  as its value; so it is for MAX and MIN on every row list that is no longer than the number
  of arguments the engine takes in one call. The key is the alias that the text gives after
  \<^verbatim>\<open>as\<close>, and without one the default \<^verbatim>\<open>SUM(col)\<close>, \<^verbatim>\<open>COUNT\<close>, \<^verbatim>\<open>AVG(col)\<close>, \<^verbatim>\<open>MAX(col)\<close>,
  \<^verbatim>\<open>MIN(col)\<close>, where \<^verbatim>\<open>col\<close> is the column name the pattern has captured. On a query text that
  no pattern matches the function returns the rows it was given. What MAX and MIN do on a
  longer row list is not part of this statement. The claim as written fails on
  \<^verbatim>\<open>SELECT SUM( Rank ) FROM data\<close>: the text holds the token \<^verbatim>\<open>SUM(\<close>, the interpreter calls the
  function, no pattern matches because of the blanks inside the parentheses, and two rows
  come back.
\<close>

theorem aggregation_one_row_when_matched:
  "(aggregate_matches q \<longrightarrow> has_aggregate q) \<and>
   (exec (aggregate_re ''SUM'') q = Some m \<longrightarrow>
      (\<exists>col v. m 1 = Some col \<and>
         calculateAggregation max_arguments results q
           = Inr [[(result_key m (''SUM('' @ col @ '')''), JNum v)]])) \<and>
   (exec (aggregate_re ''SUM'') q = None \<and> exec count_re q = Some m \<longrightarrow>
      (\<exists>v. calculateAggregation max_arguments results q = Inr [[(result_key m ''COUNT'', JNum v)]])) \<and>
   (exec (aggregate_re ''SUM'') q = None \<and> exec count_re q = None \<and>
    exec (aggregate_re ''AVG'') q = Some m \<longrightarrow>
      (\<exists>col v. m 1 = Some col \<and>
         calculateAggregation max_arguments results q
           = Inr [[(result_key m (''AVG('' @ col @ '')''), JNum v)]])) \<and>
   (exec (aggregate_re ''SUM'') q = None \<and> exec count_re q = None \<and>
    exec (aggregate_re ''AVG'') q = None \<and> exec (aggregate_re ''MAX'') q = Some m \<and>
    length results \<le> max_arguments \<longrightarrow>
      (\<exists>col v. m 1 = Some col \<and>
         calculateAggregation max_arguments results q
           = Inr [[(result_key m (''MAX('' @ col @ '')''), JNum v)]])) \<and>
   (exec (aggregate_re ''SUM'') q = None \<and> exec count_re q = None \<and>
    exec (aggregate_re ''AVG'') q = None \<and> exec (aggregate_re ''MAX'') q = None \<and>
    exec (aggregate_re ''MIN'') q = Some m \<and> length results \<le> max_arguments \<longrightarrow>
      (\<exists>col v. m 1 = Some col \<and>
         calculateAggregation max_arguments results q
           = Inr [[(result_key m (''MIN('' @ col @ '')''), JNum v)]])) \<and>
   (\<not> aggregate_matches q \<longrightarrow> calculateAggregation max_arguments results q = Inr results)"
proof (intro conjI impI)
  assume "aggregate_matches q"
  then show "has_aggregate q" by (rule aggregate_matches_token)
next
  assume a: "exec (aggregate_re ''SUM'') q = Some m"
  from aggregate_column[OF a] obtain col where c: "m 1 = Some col" "capture m 1 = col" by blast
  from calculateAggregation_SUM[OF a, of max_arguments results] c(2) aggregate_alias[OF a]
  have "calculateAggregation max_arguments results q
      = Inr [[(result_key m (''SUM('' @ col @ '')''), JNum (sum_column col results))]]"
    by simp
  with c(1) show "\<exists>col v. m 1 = Some col \<and>
         calculateAggregation max_arguments results q
           = Inr [[(result_key m (''SUM('' @ col @ '')''), JNum v)]]"
    by blast
next
  assume a: "exec (aggregate_re ''SUM'') q = None \<and> exec count_re q = Some m"
  then have s: "exec (aggregate_re ''SUM'') q = None" and c: "exec count_re q = Some m" by simp_all
  from calculateAggregation_COUNT[OF s c, of max_arguments results] count_alias[OF c]
  have "calculateAggregation max_arguments results q
      = Inr [[(result_key m ''COUNT'', JNum (Fin (of_nat (length results))))]]"
    by simp
  then show "\<exists>v. calculateAggregation max_arguments results q = Inr [[(result_key m ''COUNT'', JNum v)]]"
    by blast
next
  assume a: "exec (aggregate_re ''SUM'') q = None \<and> exec count_re q = None \<and>
    exec (aggregate_re ''AVG'') q = Some m"
  then have s: "exec (aggregate_re ''SUM'') q = None" and n: "exec count_re q = None"
    and v: "exec (aggregate_re ''AVG'') q = Some m" by simp_all
  from aggregate_column[OF v] obtain col where c: "m 1 = Some col" "capture m 1 = col" by blast
  from calculateAggregation_AVG[OF s n v, of max_arguments results] c(2) aggregate_alias[OF v]
  have "calculateAggregation max_arguments results q
      = Inr [[(result_key m (''AVG('' @ col @ '')''),
               JNum (num_div_length (sum_column col results) (length results)))]]"
    by simp
  with c(1) show "\<exists>col v. m 1 = Some col \<and>
         calculateAggregation max_arguments results q
           = Inr [[(result_key m (''AVG('' @ col @ '')''), JNum v)]]"
    by blast
next
  assume a: "exec (aggregate_re ''SUM'') q = None \<and> exec count_re q = None \<and>
    exec (aggregate_re ''AVG'') q = None \<and> exec (aggregate_re ''MAX'') q = Some m \<and>
    length results \<le> max_arguments"
  then have s: "exec (aggregate_re ''SUM'') q = None" and n: "exec count_re q = None"
    and v: "exec (aggregate_re ''AVG'') q = None" and x: "exec (aggregate_re ''MAX'') q = Some m"
    and l: "\<not> max_arguments < length results" by simp_all
  from aggregate_column[OF x] obtain col where c: "m 1 = Some col" "capture m 1 = col" by blast
  from calculateAggregation_MAX[OF s n v x, of max_arguments results] c(2) aggregate_alias[OF x] l
  have "calculateAggregation max_arguments results q
      = Inr [[(result_key m (''MAX('' @ col @ '')''), JNum (max_of (map (coerced col) results)))]]"
    by simp
  with c(1) show "\<exists>col v. m 1 = Some col \<and>
         calculateAggregation max_arguments results q
           = Inr [[(result_key m (''MAX('' @ col @ '')''), JNum v)]]"
    by blast
next
  assume a: "exec (aggregate_re ''SUM'') q = None \<and> exec count_re q = None \<and>
    exec (aggregate_re ''AVG'') q = None \<and> exec (aggregate_re ''MAX'') q = None \<and>
    exec (aggregate_re ''MIN'') q = Some m \<and> length results \<le> max_arguments"
  then have s: "exec (aggregate_re ''SUM'') q = None" and n: "exec count_re q = None"
    and v: "exec (aggregate_re ''AVG'') q = None" and x: "exec (aggregate_re ''MAX'') q = None"
    and i: "exec (aggregate_re ''MIN'') q = Some m"
    and l: "\<not> max_arguments < length results" by simp_all
  from aggregate_column[OF i] obtain col where c: "m 1 = Some col" "capture m 1 = col" by blast
  from calculateAggregation_MIN[OF s n v x i, of max_arguments results] c(2) aggregate_alias[OF i] l
  have "calculateAggregation max_arguments results q
      = Inr [[(result_key m (''MIN('' @ col @ '')''), JNum (min_of (map (coerced col) results)))]]"
    by simp
  with c(1) show "\<exists>col v. m 1 = Some col \<and>
         calculateAggregation max_arguments results q
           = Inr [[(result_key m (''MIN('' @ col @ '')''), JNum v)]]"
    by blast
next
  assume "\<not> aggregate_matches q"
  then show "calculateAggregation max_arguments results q = Inr results"
    by (rule calculateAggregation_fallthrough)
qed

theorem aggregation_one_row_when_matched_witness:
  "aggregate_matches ''SELECT SUM(`Rank`) as total FROM data'' \<and>
   has_aggregate ''SELECT SUM(`Rank`) as total FROM data'' \<and>
   calculateAggregation 65536
     [[(''Country'', JStr ''Nepal''), (''Rank'', JNum (Fin 5))],
      [(''Country'', JStr ''India''), (''Rank'', JNum (Fin 1))]]
     ''SELECT SUM(`Rank`) as total FROM data'' = Inr [[(''total'', JNum (Fin 6))]] \<and>
   calculateAggregation 65536
     [[(''Country'', JStr ''Nepal''), (''Rank'', JNum (Fin 5))],
      [(''Country'', JStr ''India''), (''Rank'', JNum (Fin 1))]]
     ''SELECT COUNT(*) FROM data'' = Inr [[(''COUNT'', JNum (Fin 2))]] \<and>
   calculateAggregation 65536
     [[(''Country'', JStr ''Nepal''), (''Rank'', JNum (Fin 5))],
      [(''Country'', JStr ''India''), (''Rank'', JNum (Fin 1))]]
     ''SELECT AVG(Rank) as mean FROM data'' = Inr [[(''mean'', JNum (Fin 3))]] \<and>
   calculateAggregation 65536
     [[(''Country'', JStr ''Nepal''), (''Rank'', JNum (Fin 5))],
      [(''Country'', JStr ''India''), (''Rank'', JNum (Fin 1))]]
     ''SELECT MAX(Rank) FROM data'' = Inr [[(''MAX(Rank)'', JNum (Fin 5))]] \<and>
   calculateAggregation 65536
     [[(''Country'', JStr ''Nepal''), (''Rank'', JNum (Fin 5))],
      [(''Country'', JStr ''India''), (''Rank'', JNum (Fin 1))]]
     ''SELECT MIN(`Rank`) FROM data'' = Inr [[(''MIN(Rank)'', JNum (Fin 1))]] \<and>
   \<not> aggregate_matches ''SELECT Rank FROM data'' \<and>
   calculateAggregation 65536
     [[(''Country'', JStr ''Nepal''), (''Rank'', JNum (Fin 5))],
      [(''Country'', JStr ''India''), (''Rank'', JNum (Fin 1))]]
     ''SELECT Rank FROM data''
     = Inr [[(''Country'', JStr ''Nepal''), (''Rank'', JNum (Fin 5))],
            [(''Country'', JStr ''India''), (''Rank'', JNum (Fin 1))]]"
proof -
  let ?rows = "[[(''Country'', JStr ''Nepal''), (''Rank'', JNum (Fin 5))],
      [(''Country'', JStr ''India''), (''Rank'', JNum (Fin 1))]]"
  let ?sum = "''SELECT SUM(`Rank`) as total FROM data''"
  let ?count = "''SELECT COUNT(*) FROM data''"
  let ?avg = "''SELECT AVG(Rank) as mean FROM data''"
  let ?max = "''SELECT MAX(Rank) FROM data''"
  let ?min = "''SELECT MIN(`Rank`) FROM data''"
  let ?none = "''SELECT Rank FROM data''"
  have short: "length ?rows \<le> 65536" by simp
  have lim: "\<And>q. calculateAggregation 65536 ?rows q = calculateAggregation 2 ?rows q"
    by (rule calculateAggregation_limit) simp
  \<comment> \<open>SUM with an alias\<close>
  have s1: "exec (aggregate_re ''SUM'') ?sum \<noteq> None"
    and s2: "aggregate_matches ?sum"
    and s3: "calculateAggregation 2 ?rows ?sum = Inr [[(''total'', JNum (Fin 6))]]"
    by code_simp+
  from s1 obtain ms where ms: "exec (aggregate_re ''SUM'') ?sum = Some ms" by auto
  from aggregation_one_row_when_matched[of ?sum ms 65536 ?rows] ms s2
  have sum: "has_aggregate ?sum \<and>
      (\<exists>col v. ms 1 = Some col \<and> calculateAggregation 65536 ?rows ?sum
          = Inr [[(result_key ms (''SUM('' @ col @ '')''), JNum v)]])"
    by blast
  \<comment> \<open>COUNT without an alias\<close>
  have c1: "exec (aggregate_re ''SUM'') ?count = None"
    and c2: "exec count_re ?count \<noteq> None"
    and c3: "calculateAggregation 2 ?rows ?count = Inr [[(''COUNT'', JNum (Fin 2))]]"
    by code_simp+
  from c2 obtain mc where mc: "exec count_re ?count = Some mc" by auto
  from aggregation_one_row_when_matched[of ?count mc 65536 ?rows] c1 mc
  have count: "\<exists>v. calculateAggregation 65536 ?rows ?count = Inr [[(result_key mc ''COUNT'', JNum v)]]"
    by blast
  \<comment> \<open>AVG with an alias\<close>
  have a1: "exec (aggregate_re ''SUM'') ?avg = None" "exec count_re ?avg = None"
    and a2: "exec (aggregate_re ''AVG'') ?avg \<noteq> None"
    and a3: "calculateAggregation 2 ?rows ?avg = Inr [[(''mean'', JNum (Fin 3))]]"
    by code_simp+
  from a2 obtain ma where ma: "exec (aggregate_re ''AVG'') ?avg = Some ma" by auto
  from aggregation_one_row_when_matched[of ?avg ma 65536 ?rows] a1 ma
  have avg: "\<exists>col v. ma 1 = Some col \<and> calculateAggregation 65536 ?rows ?avg
          = Inr [[(result_key ma (''AVG('' @ col @ '')''), JNum v)]]"
    by blast
  \<comment> \<open>MAX without an alias\<close>
  have x1: "exec (aggregate_re ''SUM'') ?max = None" "exec count_re ?max = None"
      "exec (aggregate_re ''AVG'') ?max = None"
    and x2: "exec (aggregate_re ''MAX'') ?max \<noteq> None"
    and x3: "calculateAggregation 2 ?rows ?max = Inr [[(''MAX(Rank)'', JNum (Fin 5))]]"
    by code_simp+
  from x2 obtain mx where mx: "exec (aggregate_re ''MAX'') ?max = Some mx" by auto
  from aggregation_one_row_when_matched[of ?max mx 65536 ?rows] x1 mx short
  have max: "\<exists>col v. mx 1 = Some col \<and> calculateAggregation 65536 ?rows ?max
          = Inr [[(result_key mx (''MAX('' @ col @ '')''), JNum v)]]"
    by blast
  \<comment> \<open>MIN without an alias\<close>
  have n1: "exec (aggregate_re ''SUM'') ?min = None" "exec count_re ?min = None"
      "exec (aggregate_re ''AVG'') ?min = None" "exec (aggregate_re ''MAX'') ?min = None"
    and n2: "exec (aggregate_re ''MIN'') ?min \<noteq> None"
    and n3: "calculateAggregation 2 ?rows ?min = Inr [[(''MIN(Rank)'', JNum (Fin 1))]]"
    by code_simp+
  from n2 obtain mn where mn: "exec (aggregate_re ''MIN'') ?min = Some mn" by auto
  from aggregation_one_row_when_matched[of ?min mn 65536 ?rows] n1 mn short
  have min: "\<exists>col v. mn 1 = Some col \<and> calculateAggregation 65536 ?rows ?min
          = Inr [[(result_key mn (''MIN('' @ col @ '')''), JNum v)]]"
    by blast
  \<comment> \<open>no pattern\<close>
  have e1: "\<not> aggregate_matches ?none" by code_simp
  from aggregation_one_row_when_matched[of ?none ms 65536 ?rows] e1
  have none: "calculateAggregation 65536 ?rows ?none = Inr ?rows" by blast
  from s2 sum s3 c3 a3 x3 n3 e1 none count avg max min show ?thesis
    unfolding lim by blast
qed

theorem aggregation_one_row_counterexample:
  "has_aggregate ''SELECT SUM( Rank ) FROM data'' \<and>
   calculateAggregation 65536
     [[(''Country'', JStr ''Nepal''), (''Rank'', JNum (Fin 5))],
      [(''Country'', JStr ''India''), (''Rank'', JNum (Fin 1))]]
     ''SELECT SUM( Rank ) FROM data''
     = Inr [[(''Country'', JStr ''Nepal''), (''Rank'', JNum (Fin 5))],
            [(''Country'', JStr ''India''), (''Rank'', JNum (Fin 1))]]"
proof -
  let ?rows = "[[(''Country'', JStr ''Nepal''), (''Rank'', JNum (Fin 5))],
      [(''Country'', JStr ''India''), (''Rank'', JNum (Fin 1))]]"
  let ?q = "''SELECT SUM( Rank ) FROM data''"
  have "calculateAggregation 65536 ?rows ?q = calculateAggregation 2 ?rows ?q"
    by (rule calculateAggregation_limit) simp
  moreover have "has_aggregate ?q" "calculateAggregation 2 ?rows ?q = Inr ?rows"
    by code_simp+
  ultimately show ?thesis by simp
qed

subsection \<open>Values that are not numbers\<close>

text \<open>
  C6. A row whose value in the column has no number (\<^verbatim>\<open>Number\<close> gives not-a-number) enters the
  sum, the average, the maximum and the minimum as 0: its coerced value is 0, and on every
  query text that an aggregate pattern matches \<open>calculateAggregation\<close> does the same as on the
  rows in which each such value has been replaced by 0. On a row list that is no longer than
  the number of arguments the engine takes in one call, no aggregation raises an error,
  whatever the values of the rows are. On the rows with the Sales values 100, 200 and
  \<^verbatim>\<open>abc\<close>, the query \<^verbatim>\<open>SELECT SUM(`Sales`) as total FROM data\<close> yields the one row with \<^verbatim>\<open>total\<close>
  300. That no aggregation ever raises does not hold of the code: SUM and AVG go through the
  rows with \<^verbatim>\<open>reduce\<close>, but MAX and MIN hand them to \<^verbatim>\<open>Math.max\<close> and \<^verbatim>\<open>Math.min\<close> as the
  arguments of one call. On 200000 rows whose Sales value is \<^verbatim>\<open>abc\<close>, the query
  \<^verbatim>\<open>SELECT MAX(Sales) FROM data\<close> raises a \<^verbatim>\<open>RangeError\<close> in every engine that takes fewer than
  200000 arguments.
\<close>

theorem coercion_failures_and_range_error:
  "(ToNumber (get r col) = NaN \<longrightarrow> coerced col r = Fin 0) \<and>
   (aggregate_matches q \<longrightarrow>
      calculateAggregation max_arguments (map zero_failed results) q
        = calculateAggregation max_arguments results q) \<and>
   (length results \<le> max_arguments \<longrightarrow>
      (\<exists>res. calculateAggregation max_arguments results q = Inr res)) \<and>
   executeSQL numstr max_arguments
     [[(''Sales'', JNum (Fin 100))], [(''Sales'', JNum (Fin 200))], [(''Sales'', JStr ''abc'')]]
     ''SELECT SUM(`Sales`) as total FROM data'' = Inr [[(''total'', JNum (Fin 300))]] \<and>
   (max_arguments < 200000 \<longrightarrow>
      executeSQL numstr max_arguments (replicate 200000 [(''Sales'', JStr ''abc'')])
        ''SELECT MAX(Sales) FROM data'' = Inl RangeError)"
proof (intro conjI impI)
  assume "ToNumber (get r col) = NaN"
  then show "coerced col r = Fin 0" by (simp add: coerced_def or0_def)
next
  assume "aggregate_matches q"
  then show "calculateAggregation max_arguments (map zero_failed results) q
        = calculateAggregation max_arguments results q"
    by (rule calculateAggregation_zero_failed)
next
  assume "length results \<le> max_arguments"
  then show "\<exists>res. calculateAggregation max_arguments results q = Inr res"
    by (rule calculateAggregation_short)
next
  let ?rows = "[[(''Sales'', JNum (Fin 100))], [(''Sales'', JNum (Fin 200))], [(''Sales'', JStr ''abc'')]]"
  let ?q = "''SELECT SUM(`Sales`) as total FROM data''"
  have f: "exec from_re ?q \<noteq> None" "\<not> js_includes (toLowerCase ?q) ''where''" "has_aggregate ?q"
    and o: "order_step ?rows ?q = ?rows"
    and s: "map_option (\<lambda>m. (alias_or m ''SUM(Sales)'', capture m 1))
              (exec (aggregate_re ''SUM'') ?q) = Some (''total'', ''Sales'')"
    and v: "sum_column ''Sales'' ?rows = Fin 300"
    by code_simp+
  from s obtain m where m: "exec (aggregate_re ''SUM'') ?q = Some m"
    "alias_or m ''SUM(Sales)'' = ''total''" "capture m 1 = ''Sales''"
    by auto
  from executeSQL_aggregate[where numstr = numstr and rs = ?rows and ma = max_arguments,
      OF f(3) f(1) where_step_no_where[OF f(2)]]
  have "executeSQL numstr max_arguments ?rows ?q = calculateAggregation max_arguments ?rows ?q"
    by (simp only: o)
  also have "calculateAggregation max_arguments ?rows ?q = Inr [[(''total'', JNum (Fin 300))]]"
  proof -
    from calculateAggregation_SUM[OF m(1), of max_arguments ?rows]
    have "calculateAggregation max_arguments ?rows ?q
        = Inr [[(alias_or m (''SUM('' @ ''Sales'' @ '')''), JNum (sum_column ''Sales'' ?rows))]]"
      unfolding m(3) .
    with m(2) v show ?thesis by simp
  qed
  finally show "executeSQL numstr max_arguments ?rows ?q = Inr [[(''total'', JNum (Fin 300))]]" .
next
  let ?rows = "replicate 200000 [(''Sales'', JStr ''abc'')]"
  let ?q = "''SELECT MAX(Sales) FROM data''"
  assume l: "max_arguments < 200000"
  have f: "exec from_re ?q \<noteq> None" "\<not> js_includes (toLowerCase ?q) ''where''" "has_aggregate ?q"
    and n: "exec (aggregate_re ''SUM'') ?q = None" "exec count_re ?q = None"
      "exec (aggregate_re ''AVG'') ?q = None"
    and x: "exec (aggregate_re ''MAX'') ?q \<noteq> None"
    by code_simp+
  from x obtain m where m: "exec (aggregate_re ''MAX'') ?q = Some m" by auto
  from executeSQL_aggregate[where numstr = numstr and rs = ?rows and ma = max_arguments,
      OF f(3) f(1) where_step_no_where[OF f(2)]]
  have "executeSQL numstr max_arguments ?rows ?q
      = calculateAggregation max_arguments (order_step ?rows ?q) ?q" .
  also from calculateAggregation_MAX[OF n m, of max_arguments "order_step ?rows ?q"] l
  have "calculateAggregation max_arguments (order_step ?rows ?q) ?q = Inl RangeError"
    by (simp add: length_order_step)
  finally show "executeSQL numstr max_arguments ?rows ?q = Inl RangeError" .
qed

theorem coercion_failures_and_range_error_witness:
  "ToNumber (get [(''Sales'', JStr ''abc'')] ''Sales'') = NaN \<and>
   coerced ''Sales'' [(''Sales'', JStr ''abc'')] = Fin 0 \<and>
   aggregate_matches ''SELECT AVG(Sales) FROM data'' \<and>
   calculateAggregation 65536
     (map zero_failed [[(''Sales'', JNum (Fin 100))], [(''Sales'', JStr ''abc'')]])
     ''SELECT AVG(Sales) FROM data'' = Inr [[(''AVG(Sales)'', JNum (Fin 50))]] \<and>
   calculateAggregation 65536 [[(''Sales'', JNum (Fin 100))], [(''Sales'', JStr ''abc'')]]
     ''SELECT AVG(Sales) FROM data'' = Inr [[(''AVG(Sales)'', JNum (Fin 50))]] \<and>
   executeSQL integer_numstr 65536 (replicate 200000 [(''Sales'', JStr ''abc'')])
     ''SELECT MAX(Sales) FROM data'' = Inl RangeError"
proof -
  let ?rows = "[[(''Sales'', JNum (Fin 100))], [(''Sales'', JStr ''abc'')]]"
  let ?q = "''SELECT AVG(Sales) FROM data''"
  have h: "ToNumber (get [(''Sales'', JStr ''abc'')] ''Sales'') = NaN"
    and a: "aggregate_matches ?q"
    and v: "calculateAggregation 2 ?rows ?q = Inr [[(''AVG(Sales)'', JNum (Fin 50))]]"
    by code_simp+
  have "calculateAggregation 65536 ?rows ?q = calculateAggregation 2 ?rows ?q"
    by (rule calculateAggregation_limit) simp
  with v have v': "calculateAggregation 65536 ?rows ?q = Inr [[(''AVG(Sales)'', JNum (Fin 50))]]"
    by simp
  from coercion_failures_and_range_error[of "[(''Sales'', JStr ''abc'')]" "''Sales''" ?q 65536 ?rows
      integer_numstr] h a v'
  show ?thesis by simp
qed

subsection \<open>Aggregate queries in the interpreter\<close>

text \<open>
  C1, as the code has it. A query text without a FROM clause makes the interpreter fail with
  the error \<^verbatim>\<open>Invalid SQL: Missing FROM clause\<close>. On a query text with a FROM clause that holds
  one of the tokens \<^verbatim>\<open>SUM(\<close>, \<^verbatim>\<open>COUNT(\<close>, \<^verbatim>\<open>AVG(\<close>, \<^verbatim>\<open>MAX(\<close>, \<^verbatim>\<open>MIN(\<close> in either case, the
  WHERE step succeeds with a selection of the rows, and the interpreter ends as
  \<open>calculateAggregation\<close> ends on these rows after the ORDER BY step has been applied to them,
  with its result or with the error it raises: the sort, when the text has an ORDER BY
  clause, comes before the test for aggregate tokens. LIMIT and the projection on the column
  list are not applied. For \<^verbatim>\<open>SELECT COUNT(*) as cnt FROM data ORDER BY Rank\<close> the result is the
  one row with \<^verbatim>\<open>cnt\<close> the number of rows, over every dataset. The claim as written fails on
  \<^verbatim>\<open>SELECT SUM( Rank ) FROM data ORDER BY Rank\<close>, where no pattern of the engine matches and the
  rows come back sorted: the result is not the engine's result on the rows before the sort.
  It also fails on \<^verbatim>\<open>SELECT COUNT(*)\<close>, which holds a token and has no FROM clause: the
  interpreter throws.
\<close>

theorem aggregate_after_where_and_order:
  "(has_aggregate q \<and> exec from_re q \<noteq> None \<longrightarrow>
      (\<exists>filtered. where_step numstr rs q = Inr filtered \<and> set filtered \<subseteq> set rs \<and>
         executeSQL numstr max_arguments rs q
           = calculateAggregation max_arguments (order_step filtered q) q)) \<and>
   (exec from_re q = None \<longrightarrow>
      executeSQL numstr max_arguments rs q
        = Inl (ExecutionError ''Invalid SQL: Missing FROM clause'')) \<and>
   executeSQL numstr max_arguments rs ''SELECT COUNT(*) as cnt FROM data ORDER BY Rank''
     = Inr [[(''cnt'', JNum (Fin (of_nat (length rs))))]]"
proof (intro conjI impI)
  assume a: "has_aggregate q \<and> exec from_re q \<noteq> None"
  from where_step_total[of numstr rs q] obtain filtered where
    f: "where_step numstr rs q = Inr filtered" "set filtered \<subseteq> set rs" by blast
  from a have "has_aggregate q" "exec from_re q \<noteq> None" by simp_all
  from executeSQL_aggregate[where ma = max_arguments, OF this f(1)]
  have "executeSQL numstr max_arguments rs q
      = calculateAggregation max_arguments (order_step filtered q) q" .
  with f show "\<exists>filtered. where_step numstr rs q = Inr filtered \<and> set filtered \<subseteq> set rs \<and>
         executeSQL numstr max_arguments rs q
           = calculateAggregation max_arguments (order_step filtered q) q"
    by blast
next
  assume "exec from_re q = None"
  then show "executeSQL numstr max_arguments rs q
      = Inl (ExecutionError ''Invalid SQL: Missing FROM clause'')"
    by (rule executeSQL_no_from)
next
  let ?q = "''SELECT COUNT(*) as cnt FROM data ORDER BY Rank''"
  have f1: "exec from_re ?q \<noteq> None"
    and f2: "\<not> js_includes (toLowerCase ?q) ''where''"
    and f3: "has_aggregate ?q"
    and f4: "exec (aggregate_re ''SUM'') ?q = None"
    and f5: "map_option (\<lambda>m. alias_or m ''COUNT'') (exec count_re ?q) = Some ''cnt''"
    by code_simp+
  from f5 obtain m where m: "exec count_re ?q = Some m" "alias_or m ''COUNT'' = ''cnt''"
    by auto
  from executeSQL_aggregate[where numstr = numstr and rs = rs and ma = max_arguments,
      OF f3 f1 where_step_no_where[OF f2]]
  have "executeSQL numstr max_arguments rs ?q
      = calculateAggregation max_arguments (order_step rs ?q) ?q" .
  also from calculateAggregation_COUNT[OF f4 m(1), of max_arguments "order_step rs ?q"]
  have "calculateAggregation max_arguments (order_step rs ?q) ?q
      = Inr [[(''cnt'', JNum (Fin (of_nat (length rs))))]]"
    by (simp add: m(2) length_order_step)
  finally show "executeSQL numstr max_arguments rs ?q
      = Inr [[(''cnt'', JNum (Fin (of_nat (length rs))))]]" .
qed

theorem aggregate_after_where_and_order_witness:
  "has_aggregate (''SELECT SUM(`Rank`) as total FROM data WHERE Country = Nepal ORDER BY Rank LIMIT 0'') \<and>
   where_step integer_numstr
     [[(''Country'', JStr ''Nepal''), (''Rank'', JNum (Fin 5))],
      [(''Country'', JStr ''India''), (''Rank'', JNum (Fin 1))]]
     ''SELECT SUM(`Rank`) as total FROM data WHERE Country = Nepal ORDER BY Rank LIMIT 0''
     = Inr [[(''Country'', JStr ''Nepal''), (''Rank'', JNum (Fin 5))]] \<and>
   executeSQL integer_numstr 65536
     [[(''Country'', JStr ''Nepal''), (''Rank'', JNum (Fin 5))],
      [(''Country'', JStr ''India''), (''Rank'', JNum (Fin 1))]]
     ''SELECT SUM(`Rank`) as total FROM data WHERE Country = Nepal ORDER BY Rank LIMIT 0''
     = Inr [[(''total'', JNum (Fin 5))]] \<and>
   executeSQL integer_numstr 65536
     [[(''Country'', JStr ''Nepal''), (''Rank'', JNum (Fin 5))],
      [(''Country'', JStr ''India''), (''Rank'', JNum (Fin 1))]]
     ''SELECT COUNT(*) as cnt FROM data ORDER BY Rank'' = Inr [[(''cnt'', JNum (Fin 2))]] \<and>
   executeSQL integer_numstr 65536
     [[(''Country'', JStr ''Nepal''), (''Rank'', JNum (Fin 5))],
      [(''Country'', JStr ''India''), (''Rank'', JNum (Fin 1))]]
     ''SELECT Rank'' = Inl (ExecutionError ''Invalid SQL: Missing FROM clause'')"
proof -
  let ?rows = "[[(''Country'', JStr ''Nepal''), (''Rank'', JNum (Fin 5))],
      [(''Country'', JStr ''India''), (''Rank'', JNum (Fin 1))]]"
  let ?q = "''SELECT SUM(`Rank`) as total FROM data WHERE Country = Nepal ORDER BY Rank LIMIT 0''"
  let ?sel = "[[(''Country'', JStr ''Nepal''), (''Rank'', JNum (Fin 5))]]"
  have h: "has_aggregate ?q" "exec from_re ?q \<noteq> None"
    and w: "where_step integer_numstr ?rows ?q = Inr ?sel"
    and v: "calculateAggregation 1 (order_step ?sel ?q) ?q = Inr [[(''total'', JNum (Fin 5))]]"
    and n: "exec from_re ''SELECT Rank'' = None"
    by code_simp+
  have "calculateAggregation 65536 (order_step ?sel ?q) ?q
      = calculateAggregation 1 (order_step ?sel ?q) ?q"
    by (rule calculateAggregation_limit) (simp add: length_order_step)
  with v have v': "calculateAggregation 65536 (order_step ?sel ?q) ?q
      = Inr [[(''total'', JNum (Fin 5))]]"
    by simp
  from aggregate_after_where_and_order[of ?q integer_numstr ?rows 65536] h w v'
  have 1: "executeSQL integer_numstr 65536 ?rows ?q = Inr [[(''total'', JNum (Fin 5))]]"
    by auto
  from aggregate_after_where_and_order[of ?q integer_numstr ?rows 65536]
  have 2: "executeSQL integer_numstr 65536 ?rows ''SELECT COUNT(*) as cnt FROM data ORDER BY Rank''
      = Inr [[(''cnt'', JNum (Fin 2))]]"
    by simp
  from aggregate_after_where_and_order[of "''SELECT Rank''" integer_numstr ?rows 65536] n
  have 3: "executeSQL integer_numstr 65536 ?rows ''SELECT Rank''
      = Inl (ExecutionError ''Invalid SQL: Missing FROM clause'')"
    by blast
  from h(1) w 1 2 3 show ?thesis by blast
qed

theorem aggregate_before_order_counterexample:
  "has_aggregate ''SELECT SUM( Rank ) FROM data ORDER BY Rank'' \<and>
   where_step integer_numstr
     [[(''Country'', JStr ''Nepal''), (''Rank'', JNum (Fin 5))],
      [(''Country'', JStr ''India''), (''Rank'', JNum (Fin 1))]]
     ''SELECT SUM( Rank ) FROM data ORDER BY Rank''
     = Inr [[(''Country'', JStr ''Nepal''), (''Rank'', JNum (Fin 5))],
            [(''Country'', JStr ''India''), (''Rank'', JNum (Fin 1))]] \<and>
   calculateAggregation 65536
     [[(''Country'', JStr ''Nepal''), (''Rank'', JNum (Fin 5))],
      [(''Country'', JStr ''India''), (''Rank'', JNum (Fin 1))]]
     ''SELECT SUM( Rank ) FROM data ORDER BY Rank''
     = Inr [[(''Country'', JStr ''Nepal''), (''Rank'', JNum (Fin 5))],
            [(''Country'', JStr ''India''), (''Rank'', JNum (Fin 1))]] \<and>
   executeSQL integer_numstr 65536
     [[(''Country'', JStr ''Nepal''), (''Rank'', JNum (Fin 5))],
      [(''Country'', JStr ''India''), (''Rank'', JNum (Fin 1))]]
     ''SELECT SUM( Rank ) FROM data ORDER BY Rank''
     = Inr [[(''Country'', JStr ''India''), (''Rank'', JNum (Fin 1))],
            [(''Country'', JStr ''Nepal''), (''Rank'', JNum (Fin 5))]] \<and>
   executeSQL integer_numstr 65536
     [[(''Country'', JStr ''Nepal''), (''Rank'', JNum (Fin 5))],
      [(''Country'', JStr ''India''), (''Rank'', JNum (Fin 1))]]
     ''SELECT SUM( Rank ) FROM data ORDER BY Rank''
     \<noteq> calculateAggregation 65536
         [[(''Country'', JStr ''Nepal''), (''Rank'', JNum (Fin 5))],
          [(''Country'', JStr ''India''), (''Rank'', JNum (Fin 1))]]
         ''SELECT SUM( Rank ) FROM data ORDER BY Rank'' \<and>
   has_aggregate ''SELECT COUNT(*)'' \<and>
   executeSQL integer_numstr 65536
     [[(''Country'', JStr ''Nepal''), (''Rank'', JNum (Fin 5))],
      [(''Country'', JStr ''India''), (''Rank'', JNum (Fin 1))]]
     ''SELECT COUNT(*)'' = Inl (ExecutionError ''Invalid SQL: Missing FROM clause'')"
proof -
  let ?rows = "[[(''Country'', JStr ''Nepal''), (''Rank'', JNum (Fin 5))],
      [(''Country'', JStr ''India''), (''Rank'', JNum (Fin 1))]]"
  let ?q = "''SELECT SUM( Rank ) FROM data ORDER BY Rank''"
  have h: "has_aggregate ?q" "exec from_re ?q \<noteq> None"
    and w: "where_step integer_numstr ?rows ?q = Inr ?rows"
    and c2: "calculateAggregation 2 ?rows ?q = Inr ?rows"
    and e2: "calculateAggregation 2 (order_step ?rows ?q) ?q
        = Inr [[(''Country'', JStr ''India''), (''Rank'', JNum (Fin 1))],
               [(''Country'', JStr ''Nepal''), (''Rank'', JNum (Fin 5))]]"
    by code_simp+
  have "calculateAggregation 65536 ?rows ?q = calculateAggregation 2 ?rows ?q"
    by (rule calculateAggregation_limit) simp
  with c2 have c: "calculateAggregation 65536 ?rows ?q = Inr ?rows" by simp
  have "calculateAggregation 65536 (order_step ?rows ?q) ?q
      = calculateAggregation 2 (order_step ?rows ?q) ?q"
    by (rule calculateAggregation_limit) (simp add: length_order_step)
  with e2 executeSQL_aggregate[where ma = 65536, OF h w]
  have e: "executeSQL integer_numstr 65536 ?rows ?q
        = Inr [[(''Country'', JStr ''India''), (''Rank'', JNum (Fin 1))],
               [(''Country'', JStr ''Nepal''), (''Rank'', JNum (Fin 5))]]"
    by simp
  have n: "executeSQL integer_numstr 65536 ?rows ?q \<noteq> calculateAggregation 65536 ?rows ?q"
    unfolding e c by simp
  have f: "has_aggregate ''SELECT COUNT(*)''" "exec from_re ''SELECT COUNT(*)'' = None"
    by code_simp+
  from executeSQL_no_from[OF f(2), of integer_numstr 65536 ?rows]
  have g: "executeSQL integer_numstr 65536 ?rows ''SELECT COUNT(*)''
       = Inl (ExecutionError ''Invalid SQL: Missing FROM clause'')" .
  from h(1) w c e n f(1) g show ?thesis by blast
qed
end
